theory Spec2Isabelle
  imports Complex_Main
begin

section \<open>Skill chips: fusion rules and the fuse operation\<close>

text \<open>
  The chip model follows \<open>SkillChipSystem\<close>, \<open>ChipDatabase\<close> and \<open>SkillChip\<close>.
  A chip's rarity is one of the four keys of \<open>rarityWeights\<close>; its category stays a
  string, because \<open>canFuse\<close> builds its lookup keys from the category strings.
\<close>

datatype rarity = Common | Rare | Epic | Legendary

text \<open>
  A value that is thrown, or that a promise is rejected with: an \<open>Error\<close> object with its
  message, \<open>null\<close> or \<open>undefined\<close> (a bare \<open>reject()\<close>, or the \<open>request.error\<close> the storage
  rejects with when that is \<open>null\<close>), or any other value, which has no message.
  \<open>readMessage\<close> is the expression \<open>error.message\<close> of the \<open>catch\<close> blocks: the message, or
  \<open>undefined\<close> for a value without one; on \<open>null\<close> and \<open>undefined\<close> the property read itself
  throws a \<open>TypeError\<close>.
\<close>

datatype error = Error string | Nullish | NoMessage

fun readMessage :: "error \<Rightarrow> error + string option" where
  "readMessage (Error msg) = Inr (Some msg)"
| "readMessage NoMessage = Inr None"
| "readMessage Nullish = Inl (Error ''Cannot read properties of null (reading message)'')"

record effect =
  effect_name :: string
  effect_value :: int

record SkillChip =
  chip_id :: string
  chip_type :: string
  chip_name :: string
  description :: string
  category :: string
  rarity :: rarity
  effects :: "effect list"
  acquired :: string
  fused :: bool
  fusedFrom :: "(string \<times> string) option"
  userId :: "string option"

text \<open>\<open>initializeFusionRules\<close>: each rule is stored under both key orders.\<close>

definition rules :: "(string \<times> string) list" where
  "rules =
    [(''processing'', ''logic''),
     (''processing'', ''memory''),
     (''logic'', ''memory''),
     (''logic'', ''synergy''),
     (''memory'', ''synergy''),
     (''processing'', ''synergy''),
     (''synergy'', ''special'')]"

definition ruleKey :: "string \<Rightarrow> string \<Rightarrow> string" where
  "ruleKey cat1 cat2 = cat1 @ ''-'' @ cat2"

definition initializeFusionRules :: "(string \<rightharpoonup> bool) \<Rightarrow> (string \<rightharpoonup> bool)" where
  "initializeFusionRules m =
     foldl (\<lambda>fr (cat1, cat2). (fr(ruleKey cat1 cat2 \<mapsto> True))(ruleKey cat2 cat1 \<mapsto> True)) m rules"

text \<open>The constructor starts from an empty map and initialises the rules once.\<close>

definition fusionRules0 :: "string \<rightharpoonup> bool" where
  "fusionRules0 = initializeFusionRules Map.empty"

definition has :: "('k \<rightharpoonup> 'v) \<Rightarrow> 'k \<Rightarrow> bool" where
  "has m k = (case m k of None \<Rightarrow> False | Some v \<Rightarrow> True)"

definition canFuse :: "(string \<rightharpoonup> bool) \<Rightarrow> SkillChip \<Rightarrow> SkillChip \<Rightarrow> bool" where
  "canFuse fr chip1 chip2 =
     (if rarity chip1 \<noteq> rarity chip2 then False
      else has fr (ruleKey (category chip1) (category chip2))
         \<or> has fr (ruleKey (category chip2) (category chip1)))"

text \<open>
  \<open>ChipDatabase.createFusion\<close>. The fresh id comes from \<open>generateId\<close> (random) and
  \<open>acquired\<close> from the clock; both are parameters here.
\<close>

fun indexOf :: "'a list \<Rightarrow> 'a \<Rightarrow> int" where
  "indexOf [] x = - 1"
| "indexOf (y # ys) x =
     (if y = x then 0 else (let i = indexOf ys x in if i < 0 then - 1 else i + 1))"

definition rarityOrder :: "rarity list" where
  "rarityOrder = [Common, Rare, Epic, Legendary]"

definition createFusion :: "SkillChip \<Rightarrow> SkillChip \<Rightarrow> string \<Rightarrow> string \<Rightarrow> SkillChip" where
  "createFusion chip1 chip2 newId now =
     (let fusedEffects = effects chip1 @ effects chip2;
          fusedName = chip_name chip1 @ '' + '' @ chip_name chip2;
          currentIndex = indexOf rarityOrder (rarity chip1);
          newRarity = (if currentIndex < int (length rarityOrder) - 1
                       then rarityOrder ! nat (currentIndex + 1)
                       else rarity chip1)
      in \<lparr> chip_id = newId,
           chip_type = ''fused'',
           chip_name = fusedName,
           description = ''Fused chip combining '' @ chip_name chip1 @ '' and '' @ chip_name chip2,
           category = ''synergy'',
           rarity = newRarity,
           effects = fusedEffects,
           acquired = now,
           fused = True,
           fusedFrom = Some (chip_id chip1, chip_id chip2),
           userId = None \<rparr>)"

text \<open>
  The persistence collaborator, as far as the chip system uses it: the stored chips and the
  user profile. Each call either takes effect or throws; \<open>StorageFaults\<close> says which calls
  throw, and with what error.
\<close>

record UserProfile =
  profile_id :: string
  skillChipsCollected :: nat

record Storage =
  userProfile :: "UserProfile option"
  skillChips :: "string \<rightharpoonup> SkillChip"

record StorageFaults =
  deleteSkillChipFails :: "string \<Rightarrow> error option"
  getUserProfileFails :: "error option"
  saveSkillChipFails :: "string \<Rightarrow> error option"
  saveUserProfileFails :: "error option"

record SkillChipSystem =
  userCollection :: "string \<rightharpoonup> SkillChip"
  fusionRules :: "string \<rightharpoonup> bool"
  storage :: Storage

definition deleteSkillChip :: "StorageFaults \<Rightarrow> string \<Rightarrow> Storage \<Rightarrow> error + Storage" where
  "deleteSkillChip F k st =
     (case deleteSkillChipFails F k of
        Some e \<Rightarrow> Inl e
      | None \<Rightarrow> Inr (st\<lparr>skillChips := (skillChips st)(k := None)\<rparr>))"

definition getUserProfile :: "StorageFaults \<Rightarrow> Storage \<Rightarrow> error + UserProfile option" where
  "getUserProfile F st =
     (case getUserProfileFails F of Some e \<Rightarrow> Inl e | None \<Rightarrow> Inr (userProfile st))"

definition saveSkillChip :: "StorageFaults \<Rightarrow> SkillChip \<Rightarrow> Storage \<Rightarrow> error + Storage" where
  "saveSkillChip F chip st =
     (case saveSkillChipFails F (chip_id chip) of
        Some e \<Rightarrow> Inl e
      | None \<Rightarrow> Inr (st\<lparr>skillChips := (skillChips st)(chip_id chip \<mapsto> chip)\<rparr>))"

definition saveUserProfile :: "StorageFaults \<Rightarrow> UserProfile \<Rightarrow> Storage \<Rightarrow> error + Storage" where
  "saveUserProfile F p st =
     (case saveUserProfileFails F of
        Some e \<Rightarrow> Inl e
      | None \<Rightarrow> Inr (st\<lparr>userProfile := Some p\<rparr>))"

text \<open>
  \<open>addChipToCollection\<close>: the chip enters the local collection first; with a user profile it
  is stamped with the user's id (the object in the collection is the same one), saved, and
  the profile's counter is bumped and saved. Any storage error is rethrown with the state
  as it then is. The trailing \<open>checkAchievements()\<close> call is not awaited: it neither
  changes the returned chip nor can it make this call fail, and is left out.
\<close>

definition addChipToCollection ::
  "StorageFaults \<Rightarrow> SkillChipSystem \<Rightarrow> SkillChip \<Rightarrow> (error + SkillChip) \<times> SkillChipSystem" where
  "addChipToCollection F sys chip =
     (let sys1 = sys\<lparr>userCollection := (userCollection sys)(chip_id chip \<mapsto> chip)\<rparr> in
      case getUserProfile F (storage sys1) of
        Inl e \<Rightarrow> (Inl e, sys1)
      | Inr None \<Rightarrow> (Inr chip, sys1)
      | Inr (Some p) \<Rightarrow>
          (let chip' = chip\<lparr>userId := Some (profile_id p)\<rparr>;
               sys2 = sys1\<lparr>userCollection := (userCollection sys1)(chip_id chip \<mapsto> chip')\<rparr> in
           case saveSkillChip F chip' (storage sys2) of
             Inl e \<Rightarrow> (Inl e, sys2)
           | Inr st3 \<Rightarrow>
               (let sys3 = sys2\<lparr>storage := st3\<rparr>;
                    p' = p\<lparr>skillChipsCollected := skillChipsCollected p + 1\<rparr> in
                case saveUserProfile F p' (storage sys3) of
                  Inl e \<Rightarrow> (Inl e, sys3)
                | Inr st4 \<Rightarrow> (Inr chip', sys3\<lparr>storage := st4\<rparr>))))"

text \<open>\<open>SkillChipSystem.fuseChips\<close>: both checks come before the first mutation.\<close>

definition fuseChips ::
  "StorageFaults \<Rightarrow> SkillChipSystem \<Rightarrow> string \<Rightarrow> string \<Rightarrow> string \<Rightarrow> string
     \<Rightarrow> (error + SkillChip) \<times> SkillChipSystem" where
  "fuseChips F sys chip1Id chip2Id newId now =
     (case (userCollection sys chip1Id, userCollection sys chip2Id) of
        (Some chip1, Some chip2) \<Rightarrow>
          if \<not> canFuse (fusionRules sys) chip1 chip2
          then (Inl (Error ''These chips cannot be fused''), sys)
          else
            (let fusedChip = createFusion chip1 chip2 newId now;
                 sys1 = sys\<lparr>userCollection :=
                          ((userCollection sys)(chip1Id := None))(chip2Id := None)\<rparr> in
             case deleteSkillChip F chip1Id (storage sys1) of
               Inl e \<Rightarrow> (Inl e, sys1)
             | Inr st2 \<Rightarrow>
                 (case deleteSkillChip F chip2Id st2 of
                    Inl e \<Rightarrow> (Inl e, sys1\<lparr>storage := st2\<rparr>)
                  | Inr st3 \<Rightarrow> addChipToCollection F (sys1\<lparr>storage := st3\<rparr>) fusedChip))
      | _ \<Rightarrow> (Inl (Error ''One or both chips not found in collection''), sys))"

section \<open>Tournaments: bracket generation\<close>

text \<open>
  A participant is the object \<open>joinTournament\<close> pushes; the winners that \<open>advanceWinners\<close>
  writes into a later match carry an \<open>agentId\<close> only. A team-battle bracket is built over
  teams, so a bracket slot holds either.
\<close>

record participant =
  agentId :: string
  joinedAt :: "string option"
  participant_status :: "string option"

datatype entrant = Agent participant | Team string "participant list"

record matchResult =
  winner :: "string option"
  loser :: "string option"
  score :: "(string \<times> nat) list"
  metrics :: "(nat \<times> nat) option"
  error_message :: "string option"

record 'p match =
  match_id :: string
  participant1 :: "'p option"
  participant2 :: "'p option"
  gauntlet_scenario :: "(string \<times> string) option"
  match_status :: string
  result :: "matchResult option"

record 'p round =
  round_id :: string
  number :: nat
  matches :: "'p match list"
  isFinal :: bool
  nextRound :: "string option"

record 'p bracket =
  bracket_type :: string
  rounds :: "'p round list"

text \<open>Numbers inside template strings print in decimal.\<close>

definition digit :: "nat \<Rightarrow> char" where
  "digit n = ''0123456789'' ! n"

function showNat :: "nat \<Rightarrow> string" where
  "showNat n = (if n < 10 then [digit n] else showNat (n div 10) @ [digit (n mod 10)])"
  by pat_completeness auto
termination
  by (relation "measure id") auto

declare showNat.simps [simp del]

text \<open>
  \<open>generateSingleElimination\<close>. The inner \<open>for\<close> loop walks the current participants two at a
  time: a full pair becomes a pending match, a last single participant is pushed to
  \<open>nextRoundParticipants\<close>. Nothing else is ever pushed there.
\<close>

fun pairLoop :: "nat \<Rightarrow> 'p list \<Rightarrow> 'p match list \<Rightarrow> 'p list \<Rightarrow> 'p match list \<times> 'p list" where
  "pairLoop roundNumber (p1 # p2 # rest) matchList nextRoundParticipants =
     pairLoop roundNumber rest
       (matchList @
        [\<lparr> match_id = ''match_'' @ showNat roundNumber @ ''_'' @ showNat (length matchList + 1),
           participant1 = Some p1,
           participant2 = Some p2,
           gauntlet_scenario = None,
           match_status = ''pending'',
           result = None \<rparr>])
       nextRoundParticipants"
| "pairLoop roundNumber [p] matchList nextRoundParticipants =
     (matchList, nextRoundParticipants @ [p])"
| "pairLoop roundNumber [] matchList nextRoundParticipants =
     (matchList, nextRoundParticipants)"

lemma pairLoop_next_length:
  "length (snd (pairLoop rn ps ms nx)) = length nx + length ps mod 2"
  by (induction rn ps ms nx rule: pairLoop.induct) simp_all

function roundLoop :: "'p list \<Rightarrow> nat \<Rightarrow> 'p round list \<Rightarrow> 'p round list" where
  "roundLoop currentParticipants roundNumber roundList =
     (if length currentParticipants > 1
      then (case pairLoop roundNumber currentParticipants [] [] of
              (matchList, nextRoundParticipants) \<Rightarrow>
                roundLoop nextRoundParticipants (roundNumber + 1)
                  (roundList @
                   [\<lparr> round_id = ''round_'' @ showNat roundNumber,
                      number = roundNumber,
                      matches = matchList,
                      isFinal = (length currentParticipants \<le> 2),
                      nextRound = None \<rparr>]))
      else roundList)"
  by pat_completeness auto
termination
proof (relation "measure (\<lambda>(cur, rn, rs). length cur)", goal_cases)
  case 1
  show ?case by simp
next
  case (2 cur rn rs ms nx)
  have "length (snd (pairLoop rn cur [] [])) = length cur mod 2"
    using pairLoop_next_length [of rn cur "[]" "[]"] by simp
  moreover have "snd (pairLoop rn cur [] []) = nx"
    using 2 by (metis snd_conv)
  moreover have "length cur mod 2 < 2"
    by simp
  ultimately show ?case using 2(1) by simp
qed

declare roundLoop.simps [simp del]

definition generateSingleElimination :: "'p list \<Rightarrow> 'p bracket" where
  "generateSingleElimination participants =
     \<lparr> bracket_type = ''single-elimination'', rounds = roundLoop participants 1 [] \<rparr>"

text \<open>\<open>generateRoundRobin\<close>: every pair \<open>i < j\<close>, numbered in the order of the two loops.\<close>

fun allPairs :: "'p list \<Rightarrow> ('p \<times> 'p) list" where
  "allPairs [] = []"
| "allPairs (p # ps) = map (Pair p) ps @ allPairs ps"

definition generateRoundRobin :: "'p list \<Rightarrow> 'p bracket" where
  "generateRoundRobin participants =
     \<lparr> bracket_type = ''round-robin'',
       rounds =
         [\<lparr> round_id = ''round_1'',
            number = 1,
            matches =
              map (\<lambda>(matchId, (p_i, p_j)).
                     \<lparr> match_id = ''match_'' @ showNat matchId,
                       participant1 = Some p_i,
                       participant2 = Some p_j,
                       gauntlet_scenario = None,
                       match_status = ''pending'',
                       result = None \<rparr>)
                  (enumerate 1 (allPairs participants)),
            isFinal = True,
            nextRound = None \<rparr>] \<rparr>"

definition getGauntletScenarios :: "(string \<times> string) list" where
  "getGauntletScenarios =
     [(''gauntlet_1'', ''easy''), (''gauntlet_2'', ''medium''), (''gauntlet_3'', ''hard''),
      (''gauntlet_4'', ''expert''), (''gauntlet_5'', ''master'')]"

definition generateGauntlet :: "'p list \<Rightarrow> error + 'p bracket" where
  "generateGauntlet participants =
     (if length participants \<noteq> 1
      then Inl (Error ''Gauntlet mode requires exactly one participant'')
      else Inr
        \<lparr> bracket_type = ''gauntlet'',
          rounds =
            [\<lparr> round_id = ''gauntlet_round'',
               number = 1,
               matches =
                 map (\<lambda>(index, scenario).
                        \<lparr> match_id = ''gauntlet_'' @ showNat (index + 1),
                          participant1 = Some (participants ! 0),
                          participant2 = None,
                          gauntlet_scenario = Some scenario,
                          match_status = ''pending'',
                          result = None \<rparr>)
                     (enumerate 0 getGauntletScenarios),
               isFinal = True,
               nextRound = None \<rparr>] \<rparr>)"

fun createTeams :: "participant list \<Rightarrow> entrant list \<Rightarrow> entrant list" where
  "createTeams (p1 # p2 # rest) teams =
     createTeams rest (teams @ [Team (''team_'' @ showNat (length teams + 1)) [p1, p2]])"
| "createTeams [p] teams = teams"
| "createTeams [] teams = teams"

definition generateTeamBattle :: "participant list \<Rightarrow> entrant bracket" where
  "generateTeamBattle participants = generateSingleElimination (createTeams participants [])"

definition generate :: "participant list \<Rightarrow> string \<Rightarrow> error + entrant bracket" where
  "generate participants type =
     (if type = ''single-elimination'' then Inr (generateSingleElimination (map Agent participants))
      else if type = ''round-robin'' then Inr (generateRoundRobin (map Agent participants))
      else if type = ''gauntlet'' then generateGauntlet (map Agent participants)
      else if type = ''team-battle'' then Inr (generateTeamBattle participants)
      else Inl (Error (''Unknown tournament type: '' @ type)))"

section \<open>Tournaments: the manager\<close>

text \<open>The four values the code ever writes to \<open>tournament.status\<close>; \<open>ErrorStatus\<close> is \<open>'error'\<close>.\<close>

datatype status = Registration | Running | Completed | ErrorStatus

text \<open>
  The tournament object. \<open>statusLog\<close> is not a field of the source: it keeps, in order, every
  value assigned to \<open>status\<close> since the object was created, so that the sequence of
  statuses a call goes through can be stated. Every assignment \<open>tournament.status = s\<close> of the
  source is \<open>setStatus s\<close> here, and nothing else writes \<open>status\<close> or \<open>statusLog\<close>.
\<close>

record tournament =
  tournament_id :: string
  tournament_type :: string
  tournament_scenario :: string
  maxParticipants :: nat
  participants :: "participant list"
  bracket :: "entrant bracket option"
  status :: status
  startTime :: "string option"
  endTime :: "string option"
  statusLog :: "status list"

definition setStatus :: "status \<Rightarrow> tournament \<Rightarrow> tournament" where
  "setStatus s t = t\<lparr>status := s, statusLog := statusLog t @ [s]\<rparr>"

record agent =
  agent_id :: string
  agent_name :: string

record simulationResult =
  sim_winner :: string
  sim_score :: "(string \<times> nat) list"
  sim_metrics :: "nat \<times> nat"

text \<open>
  What the manager reaches outside itself. \<open>getAgent\<close>, \<open>saveMatch\<close> and \<open>saveTournament\<close>
  belong to the storage and may throw (the storage rejects with \<open>request.error\<close>, an
  exception object or \<open>null\<close>). \<open>simulate\<close> is the match simulation; the stub the
  source ships is \<open>simulateMatch\<close> below, and the comment there announces the agent engine
  in its place, so a simulation may throw as well. \<open>roundIsComplete\<close> stands for the call
  \<open>round.isComplete()\<close>: the rounds are plain objects and the source defines no such method,
  so what the call does is left open here (a \<open>TypeError\<close> included).
  \<open>requirementsMet\<close> is \<open>checkTournamentRequirements\<close>, which reads the stored user profile
  and match history only. \<open>getAgent\<close> takes \<open>None\<close> when the slot holds a team, which has
  no \<open>agentId\<close>.
\<close>

record TournamentEnv =
  getAgent :: "string option \<Rightarrow> error + agent option"
  saveMatchFails :: "string option \<times> string option \<times> string \<Rightarrow> error option"
  simulate :: "agent \<Rightarrow> agent \<Rightarrow> string \<Rightarrow> error + simulationResult"
  saveTournamentFails :: "tournament \<Rightarrow> error option"
  roundIsComplete :: "entrant round \<Rightarrow> error + bool"
  requirementsMet :: "tournament \<Rightarrow> string \<Rightarrow> error + bool"

text \<open>
  \<open>simulateMatch\<close> as shipped: five random draws, here already mapped to their ranges
  (the coin \<open>Math.random() < 0.5\<close>, two scores below 100, a duration and a step count).
\<close>

definition simulateMatch ::
  "bool \<times> nat \<times> nat \<times> nat \<times> nat \<Rightarrow> agent \<Rightarrow> agent \<Rightarrow> string \<Rightarrow> simulationResult" where
  "simulateMatch draws agent1 agent2 scenarioId =
     (case draws of (coin, score1, score2, duration, stepCount) \<Rightarrow>
        \<lparr> sim_winner = (if coin then agent_id agent1 else agent_id agent2),
          sim_score = [(agent_id agent1, score1), (agent_id agent2, score2)],
          sim_metrics = (duration, stepCount) \<rparr>)"

fun entrantAgentId :: "entrant \<Rightarrow> string option" where
  "entrantAgentId (Agent p) = Some (agentId p)"
| "entrantAgentId (Team team_id members) = None"

text \<open>
  \<open>runMatch\<close>: the body of the \<open>try\<close> block, then the \<open>catch\<close>, which builds the failure result
  from \<open>error.message\<close>. Reading that property throws when the caught value is \<open>null\<close> or
  \<open>undefined\<close>, and \<open>runMatch\<close> then rejects.
\<close>

definition runMatchBody :: "TournamentEnv \<Rightarrow> entrant match \<Rightarrow> tournament \<Rightarrow> error + matchResult" where
  "runMatchBody env m t =
     (case participant1 m of
        None \<Rightarrow> Inl (Error ''Cannot read properties of undefined (reading agentId)'')
      | Some p1 \<Rightarrow>
     (case getAgent env (entrantAgentId p1) of
        Inl e \<Rightarrow> Inl e
      | Inr agent1 \<Rightarrow>
     (case participant2 m of
        None \<Rightarrow> Inl (Error ''Cannot read properties of undefined (reading agentId)'')
      | Some p2 \<Rightarrow>
     (case getAgent env (entrantAgentId p2) of
        Inl e \<Rightarrow> Inl e
      | Inr agent2 \<Rightarrow>
     (case (agent1, agent2) of
        (Some a1, Some a2) \<Rightarrow>
          (case saveMatchFails env (entrantAgentId p1, entrantAgentId p2, ''running'') of
             Some e \<Rightarrow> Inl e
           | None \<Rightarrow>
          (case simulate env a1 a2 (tournament_scenario t) of
             Inl e \<Rightarrow> Inl e
           | Inr simulationResult \<Rightarrow>
               (let w = sim_winner simulationResult;
                    l = (if w = agent_id a1 then agent_id a2 else agent_id a1)
                in case saveMatchFails env (entrantAgentId p1, entrantAgentId p2, ''completed'') of
                     Some e \<Rightarrow> Inl e
                   | None \<Rightarrow>
                       Inr \<lparr> winner = Some w,
                             loser = Some l,
                             score = sim_score simulationResult,
                             metrics = Some (sim_metrics simulationResult),
                             error_message = None \<rparr>)))
      | _ \<Rightarrow> Inl (Error ''One or both agents not found''))))))"

definition runMatch :: "TournamentEnv \<Rightarrow> entrant match \<Rightarrow> tournament \<Rightarrow> error + matchResult" where
  "runMatch env m t =
     (case runMatchBody env m t of
        Inr r \<Rightarrow> Inr r
      | Inl e \<Rightarrow>
          (case readMessage e of
             Inl typeError \<Rightarrow> Inl typeError
           | Inr msg \<Rightarrow>
               Inr \<lparr> winner = None, loser = None, score = [], metrics = None,
                     error_message = msg \<rparr>))"

text \<open>
  \<open>Promise.all\<close>: the list of results when every promise resolves, a rejection as soon as
  one rejects. Which rejection comes first in time is up to the scheduler; the first in
  list order is taken here (every rejection of \<open>runMatch\<close> is the \<open>TypeError\<close> of its
  \<open>catch\<close> block).
\<close>

fun promiseAll :: "(error + 'a) list \<Rightarrow> error + 'a list" where
  "promiseAll [] = Inr []"
| "promiseAll (Inl e # ps) = Inl e"
| "promiseAll (Inr x # ps) = (case promiseAll ps of Inl e \<Rightarrow> Inl e | Inr xs \<Rightarrow> Inr (x # xs))"

text \<open>
  \<open>advanceWinners\<close>. The \<open>forEach\<close> walks the matches of the round with their index; a winner
  goes to \<open>nextRound.matches[floor(index / 2)]\<close>, and writing to a match that is not there
  throws, leaving the winners already placed.
\<close>

fun findIndex :: "('a \<Rightarrow> bool) \<Rightarrow> 'a list \<Rightarrow> nat option" where
  "findIndex P [] = None"
| "findIndex P (x # xs) =
     (if P x then Some 0 else map_option Suc (findIndex P xs))"

definition winnerSlot :: "string \<Rightarrow> entrant" where
  "winnerSlot w = Agent \<lparr> agentId = w, joinedAt = None, participant_status = None \<rparr>"

fun advanceLoop ::
  "nat \<Rightarrow> entrant match list \<Rightarrow> entrant match list \<Rightarrow> error option \<times> entrant match list" where
  "advanceLoop index [] nextMatches = (None, nextMatches)"
| "advanceLoop index (m # ms) nextMatches =
     (case result m of
        None \<Rightarrow> advanceLoop (index + 1) ms nextMatches
      | Some r \<Rightarrow>
          (case winner r of
             None \<Rightarrow> advanceLoop (index + 1) ms nextMatches
           | Some w \<Rightarrow>
               if w = [] then advanceLoop (index + 1) ms nextMatches
               else
                 (let nextMatchIndex = index div 2 in
                  if nextMatchIndex < length nextMatches
                  then
                    (let nextMatch = nextMatches ! nextMatchIndex in
                     advanceLoop (index + 1) ms
                       (nextMatches[nextMatchIndex :=
                          (if index mod 2 = 0
                           then nextMatch\<lparr>participant1 := Some (winnerSlot w)\<rparr>
                           else nextMatch\<lparr>participant2 := Some (winnerSlot w)\<rparr>)]))
                  else (Some (Error ''Cannot set properties of undefined''), nextMatches))))"

definition advanceWinners ::
  "entrant round \<Rightarrow> entrant bracket \<Rightarrow> error option \<times> entrant bracket" where
  "advanceWinners currentRound b =
     (case nextRound currentRound of
        None \<Rightarrow> (None, b)
      | Some nextId \<Rightarrow>
          if nextId = [] then (None, b)
          else
            (case findIndex (\<lambda>r. round_id r = nextId) (rounds b) of
               None \<Rightarrow> (None, b)
             | Some k \<Rightarrow>
                 (case advanceLoop 0 (matches currentRound) (matches (rounds b ! k)) of
                    (err, nextMatches) \<Rightarrow>
                      (err, b\<lparr>rounds := (rounds b)[k := (rounds b ! k)\<lparr>matches := nextMatches\<rparr>]\<rparr>))))"

text \<open>
  \<open>processRound\<close>, for the round at position \<open>ri\<close> of the bracket. When \<open>Promise.all\<close> rejects,
  the \<open>await\<close> throws before any result is stored. Otherwise there is one result per match;
  each is stored in its match before the winners are advanced.
\<close>

definition processRound ::
  "TournamentEnv \<Rightarrow> tournament \<Rightarrow> nat \<Rightarrow> entrant bracket \<Rightarrow> error option \<times> entrant bracket" where
  "processRound env t ri b =
     (let currentRound = rounds b ! ri in
      case promiseAll (map (\<lambda>m. runMatch env m t) (matches currentRound)) of
        Inl e \<Rightarrow> (Some e, b)
      | Inr results \<Rightarrow>
          (let processed = currentRound\<lparr>matches :=
                     map (\<lambda>(m, r). m\<lparr>result := Some r, match_status := ''completed''\<rparr>)
                       (zip (matches currentRound) results)\<rparr>
           in advanceWinners processed (b\<lparr>rounds := (rounds b)[ri := processed]\<rparr>)))"

text \<open>
  \<open>completeTournament\<close>. The rankings and the reward log lines do not touch the status
  and cannot throw; the last step saves the tournament.
\<close>

definition completeTournament :: "TournamentEnv \<Rightarrow> string \<Rightarrow> tournament \<Rightarrow> error option \<times> tournament" where
  "completeTournament env now t =
     (let t1 = (setStatus Completed t)\<lparr>endTime := Some now\<rparr>
      in (saveTournamentFails env t1, t1))"

text \<open>\<open>processTournamentRounds\<close>: the rounds in order, stopping at a final round that is complete.\<close>

fun roundsFrom :: "TournamentEnv \<Rightarrow> string \<Rightarrow> nat list \<Rightarrow> tournament \<Rightarrow> error option \<times> tournament" where
  "roundsFrom env now [] t = (None, t)"
| "roundsFrom env now (ri # ris) t =
     (case bracket t of
        None \<Rightarrow> (Some (Error ''Cannot read properties of null (reading rounds)''), t)
      | Some b \<Rightarrow>
          (case processRound env t ri b of
             (Some e, b') \<Rightarrow> (Some e, t\<lparr>bracket := Some b'\<rparr>)
           | (None, b') \<Rightarrow>
               (let t' = t\<lparr>bracket := Some b'\<rparr>; currentRound = rounds b' ! ri in
                if isFinal currentRound
                then (case roundIsComplete env currentRound of
                        Inl e \<Rightarrow> (Some e, t')
                      | Inr True \<Rightarrow> completeTournament env now t'
                      | Inr False \<Rightarrow> roundsFrom env now ris t')
                else roundsFrom env now ris t')))"

definition processTournamentRounds ::
  "TournamentEnv \<Rightarrow> string \<Rightarrow> tournament \<Rightarrow> error option \<times> tournament" where
  "processTournamentRounds env now t =
     (case bracket t of
        None \<Rightarrow> (Some (Error ''Cannot read properties of null (reading rounds)''), t)
      | Some b \<Rightarrow> roundsFrom env now [0..<length (rounds b)] t)"

type_synonym activeTournaments = "string \<rightharpoonup> tournament"

text \<open>\<open>startTournament\<close>: whatever the \<open>try\<close> block throws, the \<open>catch\<close> sets the status to error.\<close>

definition startTournament ::
  "TournamentEnv \<Rightarrow> string \<Rightarrow> activeTournaments \<Rightarrow> string
     \<Rightarrow> (error + tournament) \<times> activeTournaments" where
  "startTournament env now mgr tournamentId =
     (case mgr tournamentId of
        None \<Rightarrow> (Inl (Error ''Tournament not found''), mgr)
      | Some t \<Rightarrow>
          if status t \<noteq> Registration
          then (Inl (Error ''Tournament cannot be started''), mgr)
          else
            (case generate (participants t) (tournament_type t) of
               Inl e \<Rightarrow> (Inl e, mgr(tournamentId \<mapsto> setStatus ErrorStatus t))
             | Inr b \<Rightarrow>
                 (let t1 = (setStatus Running (t\<lparr>bracket := Some b\<rparr>))\<lparr>startTime := Some now\<rparr> in
                  case saveTournamentFails env t1 of
                    Some e \<Rightarrow> (Inl e, mgr(tournamentId \<mapsto> setStatus ErrorStatus t1))
                  | None \<Rightarrow>
                      (case processTournamentRounds env now t1 of
                         (Some e, t2) \<Rightarrow> (Inl e, mgr(tournamentId \<mapsto> setStatus ErrorStatus t2))
                       | (None, t2) \<Rightarrow> (Inr t2, mgr(tournamentId \<mapsto> t2))))))"

text \<open>The table \<open>tournamentTypes\<close>: minimum and maximum number of participants per type.\<close>

definition tournamentTypes :: "string \<rightharpoonup> nat \<times> nat" where
  "tournamentTypes =
     [''single-elimination'' \<mapsto> (4, 64),
      ''round-robin'' \<mapsto> (3, 16),
      ''gauntlet'' \<mapsto> (1, 1),
      ''team-battle'' \<mapsto> (4, 32)]"

definition shouldAutoStart :: "tournament \<Rightarrow> error + bool" where
  "shouldAutoStart t =
     (case tournamentTypes (tournament_type t) of
        None \<Rightarrow> Inl (Error ''Cannot read properties of undefined (reading minParticipants)'')
      | Some (minParticipants, maxP) \<Rightarrow>
          Inr (length (participants t) \<ge> minParticipants \<and>
               length (participants t) = maxParticipants t))"

definition joinTournament ::
  "TournamentEnv \<Rightarrow> string \<Rightarrow> activeTournaments \<Rightarrow> string \<Rightarrow> string
     \<Rightarrow> (error + participant) \<times> activeTournaments" where
  "joinTournament env now mgr tournamentId aid =
     (case mgr tournamentId of
        None \<Rightarrow> (Inl (Error ''Tournament not found''), mgr)
      | Some t \<Rightarrow>
          if status t \<noteq> Registration
          then (Inl (Error ''Tournament registration is closed''), mgr)
          else if length (participants t) \<ge> maxParticipants t
          then (Inl (Error ''Tournament is full''), mgr)
          else if list_ex (\<lambda>p. agentId p = aid) (participants t)
          then (Inl (Error ''Agent already registered''), mgr)
          else
            (case requirementsMet env t aid of
               Inl e \<Rightarrow> (Inl e, mgr)
             | Inr False \<Rightarrow> (Inl (Error ''Agent does not meet tournament requirements''), mgr)
             | Inr True \<Rightarrow>
                 (let p = \<lparr> agentId = aid, joinedAt = Some now,
                            participant_status = Some ''registered'' \<rparr>;
                      t1 = t\<lparr>participants := participants t @ [p]\<rparr>;
                      mgr1 = mgr(tournamentId \<mapsto> t1)
                  in case saveTournamentFails env t1 of
                       Some e \<Rightarrow> (Inl e, mgr1)
                     | None \<Rightarrow>
                         (case shouldAutoStart t1 of
                            Inl e \<Rightarrow> (Inl e, mgr1)
                          | Inr False \<Rightarrow> (Inr p, mgr1)
                          | Inr True \<Rightarrow>
                              (case startTournament env now mgr1 tournamentId of
                                 (Inl e, mgr2) \<Rightarrow> (Inl e, mgr2)
                               | (Inr started, mgr2) \<Rightarrow> (Inr p, mgr2))))))"

text \<open>
  The status changes that the specification lists: registration to running, running to
  completed, running to error. This relation is written from the specification, to be
  compared with the statuses that \<open>startTournament\<close> writes.
\<close>

definition claimedTransition :: "status \<Rightarrow> status \<Rightarrow> bool" where
  "claimedTransition s s' =
     (List.member [(Registration, Running), (Running, Completed), (Running, ErrorStatus)] (s, s'))"

text \<open>The same changes, and registration to error besides.\<close>

definition amendedTransition :: "status \<Rightarrow> status \<Rightarrow> bool" where
  "amendedTransition s s' =
     (List.member [(Registration, Running), (Running, Completed), (Running, ErrorStatus),
                   (Registration, ErrorStatus)] (s, s'))"

text \<open>\<open>follows R s ws\<close>: starting from status \<open>s\<close>, each status written in \<open>ws\<close> is an \<open>R\<close>-step from the one before.\<close>

fun follows :: "(status \<Rightarrow> status \<Rightarrow> bool) \<Rightarrow> status \<Rightarrow> status list \<Rightarrow> bool" where
  "follows R s [] = True"
| "follows R s (x # xs) = (R s x \<and> follows R x xs)"

section \<open>Scenario execution\<close>

text \<open>
  \<open>ScenarioExecution\<close>. A scenario keeps the fields the execution reads: the time limit in
  seconds, the environment type that selects the loop, and for debugging scenarios the
  number of expected fixes and of test cases. A field a custom scenario may leave out is
  an option. A decision is what the agent's \<open>makeDecision\<close> resolves to.
\<close>

record scenario =
  scenario_id :: string
  timeLimit :: "int option"
  environment_type :: string
  expectedFixes :: "int option"
  testCases :: "nat option"
  scoring :: "(string \<times> rat) list option"
  objectives :: "string list option"

record decision =
  decision_action :: string
  decision_reasoning :: string

datatype stepResult =
  Applied rat
| DebugEvaluated bool nat

record step =
  step_number :: nat
  step_decision :: decision
  step_result :: stepResult
  step_fixesFound :: "nat option"
  timestamp :: int

record scenarioContext =
  lastResult :: "stepResult option"
  stepCount :: "nat option"
  fixesFound :: "nat option"
  remainingFixes :: "int option"

text \<open>
  The state of one execution. \<open>ticks\<close> counts the readings of \<open>Date.now()\<close> made so far, so
  that the next reading is \<open>clock env (ticks ex)\<close>.
\<close>

record execution =
  exec_startTime :: int
  exec_endTime :: "int option"
  steps :: "step list"
  completed :: bool
  ticks :: nat

text \<open>
  What an execution reaches outside itself: the clock, the agent's decision capability
  (asked for the \<open>k\<close>-th time with the current context; it may throw), and the random
  draws of \<open>applyDecision\<close> and \<open>evaluateDebugDecision\<close>, already mapped to their ranges.
\<close>

record ScenarioEnv =
  clock :: "nat \<Rightarrow> int"
  makeDecision :: "nat \<Rightarrow> scenarioContext \<Rightarrow> error + decision"
  impactDraw :: "nat \<Rightarrow> rat"
  fixFoundDraw :: "nat \<Rightarrow> bool"
  testsPassedDraw :: "nat \<Rightarrow> nat"

text \<open>
  The result record, for \<open>generateResults\<close> and \<open>generateErrorResults\<close> alike. The fields
  \<open>score\<close>, \<open>duration\<close>, \<open>objectives\<close>, \<open>metrics\<close> and \<open>replay\<close> are numbers and lists computed
  from the clock and from random draws after the loop has ended; they are left out, and
  so is the \<open>ExecutionMetrics\<close> object that only feeds them.
\<close>

record executionResult =
  res_scenarioId :: string
  res_agentId :: string
  res_success :: bool
  res_error :: "string option"
  res_steps :: nat

definition readClock :: "ScenarioEnv \<Rightarrow> execution \<Rightarrow> int \<times> execution" where
  "readClock env ex = (clock env (ticks ex), ex\<lparr>ticks := ticks ex + 1\<rparr>)"

definition isComplete :: "execution \<Rightarrow> bool" where
  "isComplete ex = (length (steps ex) \<ge> 5)"

text \<open>\<open>isTimedOut\<close>: no clock reading when the time limit is missing or zero.\<close>

definition isTimedOut :: "ScenarioEnv \<Rightarrow> scenario \<Rightarrow> execution \<Rightarrow> bool \<times> execution" where
  "isTimedOut env sc ex =
     (case timeLimit sc of
        None \<Rightarrow> (False, ex)
      | Some limit \<Rightarrow>
          if limit = 0 then (False, ex)
          else (case readClock env ex of
                  (now, ex') \<Rightarrow> (now - exec_startTime ex > limit * 1000, ex')))"

definition applyDecision :: "ScenarioEnv \<Rightarrow> nat \<Rightarrow> decision \<Rightarrow> scenarioContext \<Rightarrow> stepResult" where
  "applyDecision env k d ctx = Applied (impactDraw env k)"

definition updateContext :: "scenarioContext \<Rightarrow> stepResult \<Rightarrow> execution \<Rightarrow> scenarioContext" where
  "updateContext ctx r ex = ctx\<lparr>lastResult := Some r, stepCount := Some (length (steps ex))\<rparr>"

text \<open>\<open>this.steps.push(...)\<close>: the new step carries the time elapsed since the start.\<close>

definition pushStep ::
  "ScenarioEnv \<Rightarrow> nat \<Rightarrow> decision \<Rightarrow> stepResult \<Rightarrow> nat option \<Rightarrow> execution \<Rightarrow> execution" where
  "pushStep env n d r found ex =
     (case readClock env ex of
        (now, ex') \<Rightarrow>
          ex'\<lparr>steps := steps ex' @
                [\<lparr> step_number = n,
                   step_decision = d,
                   step_result = r,
                   step_fixesFound = found,
                   timestamp = now - exec_startTime ex' \<rparr>]\<rparr>)"

definition maxSteps :: nat where
  "maxSteps = 10"

text \<open>
  The \<open>while\<close> loop of \<open>runGenericScenario\<close>. The three tests are made in the order of the
  source, so the clock is read only when the first two hold. A decision that throws
  leaves the loop with the error.
\<close>

function genericLoop ::
  "ScenarioEnv \<Rightarrow> scenario \<Rightarrow> nat \<Rightarrow> scenarioContext \<Rightarrow> execution \<Rightarrow> error option \<times> execution" where
  "genericLoop env sc stepIndex ctx ex =
     (if stepIndex < maxSteps \<and> \<not> isComplete ex
      then
        (case isTimedOut env sc ex of
           (timedOut, ex1) \<Rightarrow>
             if timedOut then (None, ex1)
             else
               (case makeDecision env stepIndex ctx of
                  Inl e \<Rightarrow> (Some e, ex1)
                | Inr d \<Rightarrow>
                    (let r = applyDecision env stepIndex d ctx;
                         ex2 = pushStep env (stepIndex + 1) d r None ex1
                     in genericLoop env sc (stepIndex + 1) (updateContext ctx r ex2) ex2)))
      else (None, ex))"
  by pat_completeness auto
termination
  by (relation "measure (\<lambda>(env, sc, stepIndex, ctx, ex). maxSteps - stepIndex)") auto

declare genericLoop.simps [simp del]

text \<open>
  \<open>generateResults\<close> throws where \<open>calculateScore\<close> or \<open>evaluateObjectives\<close> meet a scenario
  without \<open>scoring\<close> or without \<open>objectives\<close>; otherwise \<open>success\<close> is the \<open>completed\<close> flag.
\<close>

definition generateResults :: "scenario \<Rightarrow> string \<Rightarrow> execution \<Rightarrow> error + executionResult" where
  "generateResults sc aid ex =
     (case scoring sc of
        None \<Rightarrow> Inl (Error ''Cannot convert undefined or null to object'')
      | Some weights \<Rightarrow>
          (case objectives sc of
             None \<Rightarrow> Inl (Error ''Cannot read properties of undefined (reading map)'')
           | Some objs \<Rightarrow>
               Inr \<lparr> res_scenarioId = scenario_id sc,
                     res_agentId = aid,
                     res_success = completed ex,
                     res_error = None,
                     res_steps = length (steps ex) \<rparr>))"

text \<open>
  \<open>generateErrorResults\<close> reads \<open>error.message\<close>: the result carries the message, or no
  message when the caught value has none, and the read throws on \<open>null\<close> and \<open>undefined\<close>.
\<close>

definition generateErrorResults ::
  "scenario \<Rightarrow> string \<Rightarrow> error \<Rightarrow> execution \<Rightarrow> error + executionResult" where
  "generateErrorResults sc aid e ex =
     (case readMessage e of
        Inl typeError \<Rightarrow> Inl typeError
      | Inr msg \<Rightarrow>
          Inr \<lparr> res_scenarioId = scenario_id sc,
                res_agentId = aid,
                res_success = False,
                res_error = msg,
                res_steps = length (steps ex) \<rparr>)"

definition setEndTime :: "ScenarioEnv \<Rightarrow> execution \<Rightarrow> execution" where
  "setEndTime env ex = (case readClock env ex of (now, ex') \<Rightarrow> ex'\<lparr>exec_endTime := Some now\<rparr>)"

definition runGenericScenario ::
  "ScenarioEnv \<Rightarrow> scenario \<Rightarrow> string \<Rightarrow> scenarioContext \<Rightarrow> execution
     \<Rightarrow> (error + executionResult) \<times> execution" where
  "runGenericScenario env sc aid ctx ex =
     (case genericLoop env sc 0 ctx ex of
        (Some e, ex') \<Rightarrow> (Inl e, ex')
      | (None, ex') \<Rightarrow>
          (let ex'' = setEndTime env ex' in (generateResults sc aid ex'', ex'')))"

text \<open>
  \<open>runDebuggingScenario\<close>. A comparison with a missing \<open>expectedFixes\<close> is false, as a
  comparison with \<open>undefined\<close> is. \<open>evaluateDebugDecision\<close> reads \<open>testCases.length\<close> and throws
  without test cases.
\<close>

definition jsLess :: "nat \<Rightarrow> int option \<Rightarrow> bool" where
  "jsLess n bound = (case bound of None \<Rightarrow> False | Some k \<Rightarrow> int n < k)"

definition jsGreaterEq :: "nat \<Rightarrow> int option \<Rightarrow> bool" where
  "jsGreaterEq n bound = (case bound of None \<Rightarrow> False | Some k \<Rightarrow> int n \<ge> k)"

definition evaluateDebugDecision :: "ScenarioEnv \<Rightarrow> nat \<Rightarrow> decision \<Rightarrow> nat option \<Rightarrow> error + stepResult" where
  "evaluateDebugDecision env k d tests =
     (case tests of
        None \<Rightarrow> Inl (Error ''Cannot read properties of undefined (reading length)'')
      | Some n \<Rightarrow> Inr (DebugEvaluated (fixFoundDraw env k) (testsPassedDraw env k)))"

function debugLoop ::
  "ScenarioEnv \<Rightarrow> scenario \<Rightarrow> nat \<Rightarrow> nat \<Rightarrow> scenarioContext \<Rightarrow> execution
     \<Rightarrow> error option \<times> nat \<times> execution" where
  "debugLoop env sc stepIndex found ctx ex =
     (if stepIndex < 5 \<and> jsLess found (expectedFixes sc)
      then
        (case isTimedOut env sc ex of
           (timedOut, ex1) \<Rightarrow>
             if timedOut then (None, found, ex1)
             else
               (let debugContext =
                      ctx\<lparr>fixesFound := Some found,
                          remainingFixes := map_option (\<lambda>k. k - int found) (expectedFixes sc)\<rparr>
                in case makeDecision env stepIndex debugContext of
                     Inl e \<Rightarrow> (Some e, found, ex1)
                   | Inr d \<Rightarrow>
                       (case evaluateDebugDecision env stepIndex d (testCases sc) of
                          Inl e \<Rightarrow> (Some e, found, ex1)
                        | Inr r \<Rightarrow>
                            (let found' = (case r of DebugEvaluated True n \<Rightarrow> found + 1
                                                   | _ \<Rightarrow> found)
                             in debugLoop env sc (stepIndex + 1) found' ctx
                                  (pushStep env (stepIndex + 1) d r (Some found') ex1)))))
      else (None, found, ex))"
  by pat_completeness auto
termination
  by (relation "measure (\<lambda>(env, sc, stepIndex, found, ctx, ex). 5 - stepIndex)") auto

declare debugLoop.simps [simp del]

definition runDebuggingScenario ::
  "ScenarioEnv \<Rightarrow> scenario \<Rightarrow> string \<Rightarrow> scenarioContext \<Rightarrow> execution
     \<Rightarrow> (error + executionResult) \<times> execution" where
  "runDebuggingScenario env sc aid ctx ex =
     (case debugLoop env sc 0 0 ctx ex of
        (Some e, found, ex') \<Rightarrow> (Inl e, ex')
      | (None, found, ex') \<Rightarrow>
          (let ex'' = setEndTime env (ex'\<lparr>completed := jsGreaterEq found (expectedFixes sc)\<rparr>)
           in (generateResults sc aid ex'', ex'')))"

text \<open>
  \<open>run\<close>, on the fresh execution the constructor builds, with the start time read first. Every environment type but
  \<open>code_debugging\<close> ends in \<open>runGenericScenario\<close>. The \<open>catch\<close> hands an error of either loop,
  or of \<open>generateResults\<close>, to \<open>generateErrorResults\<close>; what that throws is thrown by \<open>run\<close>
  (\<open>Inl\<close>), nothing being around the \<open>catch\<close> block.
\<close>

definition newContext :: scenarioContext where
  "newContext = \<lparr> lastResult = None, stepCount = None, fixesFound = None, remainingFixes = None \<rparr>"

definition newExecution :: "ScenarioEnv \<Rightarrow> execution" where
  "newExecution env =
     \<lparr> exec_startTime = clock env 0, exec_endTime = None, steps = [],
       completed = False, ticks = 1 \<rparr>"

definition run ::
  "ScenarioEnv \<Rightarrow> scenario \<Rightarrow> string \<Rightarrow> (error + executionResult) \<times> execution" where
  "run env sc aid =
     (case (if environment_type sc = ''code_debugging''
            then runDebuggingScenario env sc aid newContext (newExecution env)
            else runGenericScenario env sc aid newContext (newExecution env)) of
        (Inr res, ex) \<Rightarrow> (Inr res, ex)
      | (Inl e, ex) \<Rightarrow>
          (let ex' = setEndTime env ex in (generateErrorResults sc aid e ex', ex')))"

text \<open>
  A clock that never shows the time limit exceeded: no limit (or zero), or every reading
  within the limit of the first one. The time-out check is then always negative.
\<close>

definition withinLimit :: "ScenarioEnv \<Rightarrow> scenario \<Rightarrow> bool" where
  "withinLimit env sc =
     (case timeLimit sc of
        None \<Rightarrow> True
      | Some limit \<Rightarrow> limit = 0 \<or> (\<forall>k. clock env k - clock env 0 \<le> limit * 1000))"

section \<open>Sample data\<close>

text \<open>
  Two chips as \<open>ChipDatabase.create\<close> builds them from the chip types \<open>speed_boost\<close> and
  \<open>reasoning_matrix\<close>, a collection holding both, and a storage that never fails.
\<close>

definition sampleSpeedBoost :: "rarity \<Rightarrow> SkillChip" where
  "sampleSpeedBoost r =
     \<lparr> chip_id = ''chip_a'', chip_type = ''speed_boost'', chip_name = ''Speed Boost'',
       description = ''Increases processing speed by 25%'', category = ''processing'',
       rarity = r, effects = [\<lparr>effect_name = ''Speed'', effect_value = 25\<rparr>],
       acquired = ''2024-01-01T00:00:00.000Z'', fused = False, fusedFrom = None,
       userId = None \<rparr>"

definition sampleReasoningMatrix :: "rarity \<Rightarrow> SkillChip" where
  "sampleReasoningMatrix r =
     \<lparr> chip_id = ''chip_b'', chip_type = ''reasoning_matrix'', chip_name = ''Reasoning Matrix'',
       description = ''Improves logical reasoning by 30%'', category = ''logic'',
       rarity = r, effects = [\<lparr>effect_name = ''Logic'', effect_value = 30\<rparr>],
       acquired = ''2024-01-01T00:00:00.000Z'', fused = False, fusedFrom = None,
       userId = None \<rparr>"

definition sampleSystem :: "rarity \<Rightarrow> rarity \<Rightarrow> SkillChipSystem" where
  "sampleSystem r1 r2 =
     \<lparr> userCollection =
         [''chip_a'' \<mapsto> sampleSpeedBoost r1, ''chip_b'' \<mapsto> sampleReasoningMatrix r2],
       fusionRules = fusionRules0,
       storage = \<lparr> userProfile = Some \<lparr>profile_id = ''user_1'', skillChipsCollected = 2\<rparr>,
                   skillChips =
                     [''chip_a'' \<mapsto> sampleSpeedBoost r1, ''chip_b'' \<mapsto> sampleReasoningMatrix r2] \<rparr> \<rparr>"

definition noFaults :: StorageFaults where
  "noFaults =
     \<lparr> deleteSkillChipFails = (\<lambda>k. None), getUserProfileFails = None,
       saveSkillChipFails = (\<lambda>k. None), saveUserProfileFails = None \<rparr>"

text \<open>
  Four registered participants, and an environment in which every agent is found, no
  storage call fails, and the shipped \<open>simulateMatch\<close> decides each match with a coin that
  favours \<open>A\<close> as first participant and otherwise the second one: \<open>A\<close> beats \<open>B\<close>, \<open>D\<close> beats \<open>C\<close>.
  The call \<open>round.isComplete()\<close> throws, as it does on the plain round objects of the source.
\<close>

definition sampleParticipant :: "string \<Rightarrow> participant" where
  "sampleParticipant a =
     \<lparr> agentId = a, joinedAt = Some ''2024-01-01T00:00:00.000Z'',
       participant_status = Some ''registered'' \<rparr>"

definition sampleEnv :: TournamentEnv where
  "sampleEnv =
     \<lparr> getAgent = (\<lambda>k. case k of None \<Rightarrow> Inr None
                               | Some a \<Rightarrow> Inr (Some \<lparr>agent_id = a, agent_name = a\<rparr>)),
       saveMatchFails = (\<lambda>k. None),
       simulate = (\<lambda>a1 a2 sc. Inr (simulateMatch (agent_id a1 = ''A'', 70, 30, 120, 80) a1 a2 sc)),
       saveTournamentFails = (\<lambda>t. None),
       roundIsComplete = (\<lambda>r. Inl (Error ''round.isComplete is not a function'')),
       requirementsMet = (\<lambda>t a. Inr True) \<rparr>"

definition sampleTournament :: "string \<Rightarrow> nat \<Rightarrow> participant list \<Rightarrow> tournament" where
  "sampleTournament ty maxP ps =
     \<lparr> tournament_id = ''t1'', tournament_type = ty, tournament_scenario = ''planning_complex'',
       maxParticipants = maxP, participants = ps, bracket = None, status = Registration,
       startTime = None, endTime = None, statusLog = [] \<rparr>"

definition sampleFour :: "participant list" where
  "sampleFour = map sampleParticipant [''A'', ''B'', ''C'', ''D'']"

text \<open>The same environment, except that the storage holds no record of one agent.\<close>

definition sampleEnvWithout :: "string \<Rightarrow> TournamentEnv" where
  "sampleEnvWithout missing =
     sampleEnv\<lparr>getAgent := (\<lambda>k. if k = Some missing then Inr None else getAgent sampleEnv k)\<rparr>"


text \<open>What each match of each round holds: the agent ids of its two slots, and its winner.\<close>

definition slots :: "entrant bracket \<Rightarrow> (string option \<times> string option \<times> string option) list list" where
  "slots b =
     map (\<lambda>r. map (\<lambda>m. (Option.bind (participant1 m) entrantAgentId,
                          Option.bind (participant2 m) entrantAgentId,
                          Option.bind (result m) winner))
                 (matches r))
       (rounds b)"

text \<open>
  The built-in scenarios \<open>planning_multi_step\<close> and \<open>debug_basic\<close>, the latter with the number of
  expected fixes left open (the built-in one expects 3; a custom scenario sets its own),
  an agent that always answers, one whose decision capability always throws, and a clock
  that stays within any of these time limits.
\<close>

definition planningMultiStep :: scenario where
  "planningMultiStep =
     \<lparr> scenario_id = ''planning_multi_step'', timeLimit = Some 600,
       environment_type = ''planning_simulation'', expectedFixes = None, testCases = None,
       scoring = Some [(''completeness'', 3 / 10), (''feasibility'', 3 / 10),
                       (''optimization'', 2 / 10), (''creativity'', 2 / 10)],
       objectives =
         Some [''Break down complex task into manageable subtasks'',
               ''Identify dependencies and critical path'',
               ''Allocate resources efficiently'',
               ''Create realistic timeline with milestones'',
               ''Plan for contingencies and risk mitigation''] \<rparr>"

definition debugScenario :: "int \<Rightarrow> scenario" where
  "debugScenario fixes =
     \<lparr> scenario_id = ''debug_basic'', timeLimit = Some 300,
       environment_type = ''code_debugging'', expectedFixes = Some fixes, testCases = Some 3,
       scoring = Some [(''accuracy'', 4 / 10), (''speed'', 3 / 10), (''efficiency'', 3 / 10)],
       objectives =
         Some [''Identify syntax errors in the code'',
               ''Fix logical inconsistencies in the planning algorithm'',
               ''Validate output correctness and completeness''] \<rparr>"

definition decidingEnv :: ScenarioEnv where
  "decidingEnv =
     \<lparr> clock = (\<lambda>k. 1700000000000 + int (min k 100)),
       makeDecision = (\<lambda>k c. Inr \<lparr> decision_action = ''analyze'',
                                    decision_reasoning = ''next step'' \<rparr>),
       impactDraw = (\<lambda>k. 5),
       fixFoundDraw = (\<lambda>k. True),
       testsPassedDraw = (\<lambda>k. 2) \<rparr>"

definition throwingEnv :: ScenarioEnv where
  "throwingEnv = decidingEnv\<lparr>makeDecision := (\<lambda>k c. Inl (Error ''decision failed''))\<rparr>"

text \<open>
  The first round of the bracket generated for the four participants, linked by hand to a
  second, final round with one empty match: the shape \<open>advanceWinners\<close> is written for.
\<close>

definition linkedFour :: "entrant bracket" where
  "linkedFour =
     \<lparr> bracket_type = ''single-elimination'',
       rounds =
         [(rounds (generateSingleElimination (map Agent sampleFour)) ! 0)
            \<lparr>nextRound := Some ''round_2''\<rparr>,
          \<lparr> round_id = ''round_2'', number = 2,
            matches = [\<lparr> match_id = ''match_2_1'', participant1 = None, participant2 = None,
                         gauntlet_scenario = None, match_status = ''pending'', result = None \<rparr>],
            isFinal = True, nextRound = None \<rparr>] \<rparr>"

section \<open>Fusion rules: proofs\<close>

text \<open>A key splits at its dash in one way only, when the two names hold no dash.\<close>

lemma ruleKey_inject:
  assumes "CHR ''-'' \<notin> set a" "CHR ''-'' \<notin> set b"
  shows "ruleKey c1 c2 = ruleKey a b \<longleftrightarrow> c1 = a \<and> c2 = b"
  using assms unfolding ruleKey_def
proof (induction a arbitrary: c1)
  case Nil
  then show ?case by (cases c1) auto
next
  case (Cons x a)
  then show ?case by (cases c1) auto
qed

lemma has_initializeFusionRules:
  "has (foldl (\<lambda>fr (cat1, cat2). (fr(ruleKey cat1 cat2 \<mapsto> True))(ruleKey cat2 cat1 \<mapsto> True)) m rs) k
   \<longleftrightarrow> has m k \<or> (\<exists>(a, b) \<in> set rs. k = ruleKey a b \<or> k = ruleKey b a)"
  by (induction rs arbitrary: m) (auto simp: has_def)

lemma rules_dash_free: "\<forall>(a, b) \<in> set rules. CHR ''-'' \<notin> set a \<and> CHR ''-'' \<notin> set b"
  by (simp add: rules_def)

lemma has_fusionRules0:
  "has fusionRules0 (ruleKey x y) \<longleftrightarrow> (x, y) \<in> set rules \<or> (y, x) \<in> set rules"
proof -
  have "has fusionRules0 (ruleKey x y) \<longleftrightarrow>
        (\<exists>(a, b) \<in> set rules. ruleKey x y = ruleKey a b \<or> ruleKey x y = ruleKey b a)"
    unfolding fusionRules0_def initializeFusionRules_def has_initializeFusionRules
    by (simp add: has_def)
  also have "\<dots> \<longleftrightarrow> (\<exists>(a, b) \<in> set rules. (x = a \<and> y = b) \<or> (x = b \<and> y = a))"
    using rules_dash_free by (intro bex_cong refl) (auto simp: ruleKey_inject)
  also have "\<dots> \<longleftrightarrow> (x, y) \<in> set rules \<or> (y, x) \<in> set rules"
    by auto
  finally show ?thesis .
qed

lemma unordered_pair_in_list:
  "((x, y) \<in> set rs \<or> (y, x) \<in> set rs) \<longleftrightarrow>
   {x, y} \<in> set (map (\<lambda>(a, b). {a, b}) rs)"
proof (induction rs)
  case Nil
  then show ?case by simp
next
  case (Cons r rs)
  obtain a b where r: "r = (a, b)" by (cases r)
  have "{x, y} = {a, b} \<longleftrightarrow> (x = a \<and> y = b) \<or> (x = b \<and> y = a)"
    by (rule doubleton_eq_iff)
  with Cons r show ?case by auto
qed

lemma has_either_key:
  "has fusionRules0 (ruleKey x y) \<or> has fusionRules0 (ruleKey y x) \<longleftrightarrow>
     {x, y} \<in> set (map (\<lambda>(a, b). {a, b}) rules)"
  unfolding has_fusionRules0 unordered_pair_in_list [symmetric] by blast

lemma rule_sets:
  "set (map (\<lambda>(a, b). {a, b}) rules) =
       {{''processing'', ''logic''}, {''processing'', ''memory''}, {''logic'', ''memory''},
        {''logic'', ''synergy''}, {''memory'', ''synergy''}, {''processing'', ''synergy''},
        {''synergy'', ''special''}}"
  unfolding rules_def by (simp only: list.map prod.case list.set)

lemma if_neq_False: "(if r \<noteq> r' then False else P) \<longleftrightarrow> r = r' \<and> P"
  by simp

text \<open>Running \<open>initializeFusionRules\<close> a second time, as \<open>initialize\<close> does, adds no key.\<close>

lemma has_initialized_twice:
  "has (initializeFusionRules fusionRules0) k \<longleftrightarrow> has fusionRules0 k"
  unfolding fusionRules0_def initializeFusionRules_def has_initializeFusionRules by blast

lemma canFuse_fusionRules0:
  "canFuse fusionRules0 a b \<longleftrightarrow>
     rarity a = rarity b \<and>
     {category a, category b} \<in>
       {{''processing'', ''logic''}, {''processing'', ''memory''}, {''logic'', ''memory''},
        {''logic'', ''synergy''}, {''memory'', ''synergy''}, {''processing'', ''synergy''},
        {''synergy'', ''special''}}"
  unfolding canFuse_def has_either_key rule_sets by (rule if_neq_False)

lemma canFuse_initialized_twice:
  "canFuse (initializeFusionRules fusionRules0) a b \<longleftrightarrow> canFuse fusionRules0 a b"
  unfolding canFuse_def has_initialized_twice ..

text \<open>
  Claim C4. \<open>canFuse\<close> holds exactly when the two rarities are equal and the unordered pair
  of categories is one of the seven pairs of the rule table; so it is false for
  every pair of chips of different rarity, whatever their categories. This is so for
  the rules as the constructor sets them up, and as \<open>initialize\<close> leaves them after
  running \<open>initializeFusionRules\<close> once more.
\<close>

theorem canFuse_iff_same_rarity_and_rule:
  "(canFuse fusionRules0 a b \<longleftrightarrow>
     rarity a = rarity b \<and>
     {category a, category b} \<in>
       {{''processing'', ''logic''}, {''processing'', ''memory''}, {''logic'', ''memory''},
        {''logic'', ''synergy''}, {''memory'', ''synergy''}, {''processing'', ''synergy''},
        {''synergy'', ''special''}}) \<and>
   (canFuse (initializeFusionRules fusionRules0) a b \<longleftrightarrow> canFuse fusionRules0 a b)"
  using canFuse_fusionRules0 [of a b] canFuse_initialized_twice [of a b] by (rule conjI)

lemma sample_canFuse: "canFuse fusionRules0 (sampleSpeedBoost r) (sampleReasoningMatrix r)"
  by (simp add: canFuse_def has_def fusionRules0_def initializeFusionRules_def rules_def
      ruleKey_def sampleSpeedBoost_def sampleReasoningMatrix_def)

theorem canFuse_iff_witness:
  "canFuse fusionRules0 (sampleSpeedBoost Epic) (sampleReasoningMatrix Epic) \<and>
   \<not> canFuse fusionRules0 (sampleSpeedBoost Epic) (sampleReasoningMatrix Rare)"
proof -
  have "\<not> canFuse fusionRules0 (sampleSpeedBoost Epic) (sampleReasoningMatrix Rare)"
    using canFuse_iff_same_rarity_and_rule [of "sampleSpeedBoost Epic" "sampleReasoningMatrix Rare"]
    by (simp add: sampleSpeedBoost_def sampleReasoningMatrix_def del: insert_iff)
  then show ?thesis using sample_canFuse by simp
qed

section \<open>Fusing two chips: proofs\<close>

lemma createFusion_rarity:
  "rarity (createFusion a b nid now) =
     (case rarity a of Common \<Rightarrow> Rare | Rare \<Rightarrow> Epic | Epic \<Rightarrow> Legendary | Legendary \<Rightarrow> Legendary)"
  by (cases "rarity a") (simp_all add: createFusion_def rarityOrder_def Let_def)

lemma createFusion_effects: "effects (createFusion a b nid now) = effects a @ effects b"
  by (simp add: createFusion_def Let_def)

lemma createFusion_category: "category (createFusion a b nid now) = ''synergy''"
  by (simp add: createFusion_def Let_def)

lemma createFusion_id: "chip_id (createFusion a b nid now) = nid"
  by (simp add: createFusion_def Let_def)

lemma addChipToCollection_returns:
  "addChipToCollection F sys chip = (Inr c, sys') \<Longrightarrow>
     effects c = effects chip \<and> rarity c = rarity chip \<and> category c = category chip"
  by (auto simp: addChipToCollection_def Let_def split: sum.splits option.splits)

lemma addChipToCollection_succeeds:
  "getUserProfileFails F = None \<Longrightarrow> saveSkillChipFails F (chip_id chip) = None \<Longrightarrow>
   saveUserProfileFails F = None \<Longrightarrow>
   \<exists>c sys'. addChipToCollection F sys chip = (Inr c, sys')"
  by (auto simp: addChipToCollection_def Let_def getUserProfile_def saveSkillChip_def
      saveUserProfile_def split: sum.splits option.splits)

lemma fuseChips_returns:
  assumes "userCollection sys i = Some a" "userCollection sys j = Some b"
    and "fuseChips F sys i j nid now = (Inr c, sys')"
  shows "effects c = effects (createFusion a b nid now) \<and>
         rarity c = rarity (createFusion a b nid now) \<and>
         category c = category (createFusion a b nid now)"
  using assms
  by (auto simp: fuseChips_def Let_def split: if_splits sum.splits
      dest!: addChipToCollection_returns)

lemma fuseChips_succeeds:
  assumes "userCollection sys i = Some a" "userCollection sys j = Some b"
    and "canFuse (fusionRules sys) a b"
    and "deleteSkillChipFails F i = None" "deleteSkillChipFails F j = None"
    and "getUserProfileFails F = None" "saveSkillChipFails F nid = None"
    and "saveUserProfileFails F = None"
  shows "\<exists>c sys'. fuseChips F sys i j nid now = (Inr c, sys')"
  using assms addChipToCollection_succeeds [of F "createFusion a b nid now"]
  by (simp add: fuseChips_def Let_def deleteSkillChip_def createFusion_id)

text \<open>
  Claim C3. Let \<open>a\<close> and \<open>b\<close> be two chips of the collection that \<open>canFuse\<close> accepts (equal
  rarity, compatible categories). Every chip that \<open>fuseChips\<close> returns for them has the
  effects of \<open>a\<close> followed by those of \<open>b\<close> (so as many as both together), the rarity one
  step above theirs on common, rare, epic, legendary, with legendary staying legendary,
  and the category synergy. When no storage call fails, \<open>fuseChips\<close> does return a chip,
  for legendary inputs as for any other.
\<close>

theorem fuseChips_fused_chip:
  assumes "userCollection sys i = Some a" and "userCollection sys j = Some b"
    and "canFuse (fusionRules sys) a b"
  shows "(\<forall>c sys'. fuseChips F sys i j nid now = (Inr c, sys') \<longrightarrow>
            effects c = effects a @ effects b \<and>
            length (effects c) = length (effects a) + length (effects b) \<and>
            rarity c = (case rarity a of Common \<Rightarrow> Rare | Rare \<Rightarrow> Epic
                        | Epic \<Rightarrow> Legendary | Legendary \<Rightarrow> Legendary) \<and>
            rarity a = rarity b \<and>
            category c = ''synergy'') \<and>
         (deleteSkillChipFails F i = None \<and> deleteSkillChipFails F j = None \<and>
          getUserProfileFails F = None \<and> saveSkillChipFails F nid = None \<and>
          saveUserProfileFails F = None \<longrightarrow>
            (\<exists>c sys'. fuseChips F sys i j nid now = (Inr c, sys')))"
proof (intro conjI allI impI)
  fix c sys'
  assume r: "fuseChips F sys i j nid now = (Inr c, sys')"
  from fuseChips_returns [OF assms(1,2) r]
  show "effects c = effects a @ effects b"
    and "rarity c = (case rarity a of Common \<Rightarrow> Rare | Rare \<Rightarrow> Epic
                        | Epic \<Rightarrow> Legendary | Legendary \<Rightarrow> Legendary)"
    and "category c = ''synergy''"
    by (simp_all add: createFusion_effects createFusion_rarity createFusion_category)
  then show "length (effects c) = length (effects a) + length (effects b)"
    by simp
  from assms(3) show "rarity a = rarity b"
    by (simp add: canFuse_def split: if_splits)
next
  assume "deleteSkillChipFails F i = None \<and> deleteSkillChipFails F j = None \<and>
          getUserProfileFails F = None \<and> saveSkillChipFails F nid = None \<and>
          saveUserProfileFails F = None"
  then show "\<exists>c sys'. fuseChips F sys i j nid now = (Inr c, sys')"
    using fuseChips_succeeds [OF assms] by blast
qed

lemma sampleSystem_lookup:
  "userCollection (sampleSystem r1 r2) ''chip_a'' = Some (sampleSpeedBoost r1)"
  "userCollection (sampleSystem r1 r2) ''chip_b'' = Some (sampleReasoningMatrix r2)"
  "fusionRules (sampleSystem r1 r2) = fusionRules0"
  by (simp_all add: sampleSystem_def)

theorem fuseChips_fused_chip_witness:
  "\<exists>c sys'. fuseChips noFaults (sampleSystem Legendary Legendary) ''chip_a'' ''chip_b''
              ''chip_c'' ''2024-02-02T00:00:00.000Z'' = (Inr c, sys') \<and>
            rarity c = Legendary \<and> length (effects c) = 2 \<and> category c = ''synergy''"
proof -
  have cf: "canFuse (fusionRules (sampleSystem Legendary Legendary))
              (sampleSpeedBoost Legendary) (sampleReasoningMatrix Legendary)"
    using sample_canFuse by (simp only: sampleSystem_lookup)
  note th = fuseChips_fused_chip [OF sampleSystem_lookup(1) sampleSystem_lookup(2) cf,
      of noFaults "''chip_c''" "''2024-02-02T00:00:00.000Z''"]
  have nf: "deleteSkillChipFails noFaults ''chip_a'' = None \<and>
            deleteSkillChipFails noFaults ''chip_b'' = None \<and>
            getUserProfileFails noFaults = None \<and> saveSkillChipFails noFaults ''chip_c'' = None \<and>
            saveUserProfileFails noFaults = None"
    by (simp add: noFaults_def)
  from th nf obtain c sys' where
    r: "fuseChips noFaults (sampleSystem Legendary Legendary) ''chip_a'' ''chip_b''
              ''chip_c'' ''2024-02-02T00:00:00.000Z'' = (Inr c, sys')"
    by blast
  with th have "rarity c = (case rarity (sampleSpeedBoost Legendary) of Common \<Rightarrow> Rare
        | Rare \<Rightarrow> Epic | Epic \<Rightarrow> Legendary | Legendary \<Rightarrow> Legendary)"
    and "effects c = effects (sampleSpeedBoost Legendary) @ effects (sampleReasoningMatrix Legendary)"
    and "category c = ''synergy''"
    by blast+
  then have "rarity c = Legendary \<and> length (effects c) = 2 \<and> category c = ''synergy''"
    by (simp add: sampleSpeedBoost_def sampleReasoningMatrix_def)
  with r show ?thesis by blast
qed

text \<open>
  Claim C5. When one of the two ids names no chip of the collection, or both do but
  \<open>canFuse\<close> rejects the pair, \<open>fuseChips\<close> ends with an error and the whole system state
  (the collection and the storage) is as before: no chip removed, none added.
\<close>

theorem fuseChips_invalid_leaves_collection:
  assumes "userCollection sys i = None \<or> userCollection sys j = None \<or>
     (\<exists>a b. userCollection sys i = Some a \<and> userCollection sys j = Some b
        \<and> \<not> canFuse (fusionRules sys) a b)"
  shows "\<exists>e. fuseChips F sys i j nid now = (Inl e, sys)"
  using assms by (auto simp: fuseChips_def split: option.splits)

theorem fuseChips_invalid_witness:
  "(\<exists>e. fuseChips noFaults (sampleSystem Epic Rare) ''chip_a'' ''chip_b'' ''chip_c'' ''t''
          = (Inl e, sampleSystem Epic Rare)) \<and>
   (\<exists>e. fuseChips noFaults (sampleSystem Epic Epic) ''chip_a'' ''chip_z'' ''chip_c'' ''t''
          = (Inl e, sampleSystem Epic Epic))"
proof -
  have "\<not> canFuse (fusionRules (sampleSystem Epic Rare))
            (sampleSpeedBoost Epic) (sampleReasoningMatrix Rare)"
    by (simp add: canFuse_def sampleSpeedBoost_def sampleReasoningMatrix_def)
  then have 1: "\<exists>e. fuseChips noFaults (sampleSystem Epic Rare) ''chip_a'' ''chip_b'' ''chip_c'' ''t''
          = (Inl e, sampleSystem Epic Rare)"
    using sampleSystem_lookup(1,2) [of Epic Rare]
    by (intro fuseChips_invalid_leaves_collection) blast
  have "userCollection (sampleSystem Epic Epic) ''chip_z'' = None"
    by (simp add: sampleSystem_def)
  then have 2: "\<exists>e. fuseChips noFaults (sampleSystem Epic Epic) ''chip_a'' ''chip_z'' ''chip_c'' ''t''
          = (Inl e, sampleSystem Epic Epic)"
    by (intro fuseChips_invalid_leaves_collection) blast
  from 1 2 show ?thesis by blast
qed

section \<open>Bracket generation: proofs\<close>

lemma pairLoop_matches_length:
  "length (fst (pairLoop rn ps ms nx)) = length ms + length ps div 2"
  by (induction rn ps ms nx rule: pairLoop.induct) simp_all

lemma roundLoop_done: "length cur \<le> 1 \<Longrightarrow> roundLoop cur rn rs = rs"
  by (subst roundLoop.simps) simp

lemma roundLoop_single_round:
  assumes "2 \<le> length cur"
  shows "roundLoop cur rn rs =
     rs @ [\<lparr> round_id = ''round_'' @ showNat rn, number = rn,
              matches = fst (pairLoop rn cur [] []),
              isFinal = (length cur \<le> 2), nextRound = None \<rparr>]"
proof -
  obtain ms nx where p: "pairLoop rn cur [] [] = (ms, nx)"
    by (cases "pairLoop rn cur [] []")
  have "length nx = length cur mod 2"
    using pairLoop_next_length [of rn cur "[]" "[]"] p by simp
  then have "length nx \<le> 1"
    by simp
  then show ?thesis
    using assms p by (subst roundLoop.simps) (simp add: roundLoop_done)
qed

lemma single_elimination_builds_one_round:
  assumes "2 \<le> length ps"
  shows "length (rounds (generateSingleElimination ps)) = 1 \<and>
         length (matches (last (rounds (generateSingleElimination ps)))) = length ps div 2 \<and>
         isFinal (last (rounds (generateSingleElimination ps))) = (length ps = 2)"
  using assms
  by (auto simp: generateSingleElimination_def roundLoop_single_round pairLoop_matches_length)

lemma advanceLoop_keeps:
  "advanceLoop idx ms nms = (err, nms') \<Longrightarrow>
     length nms' = length nms \<and>
     (\<forall>i < length nms. result (nms' ! i) = result (nms ! i) \<and>
                        match_status (nms' ! i) = match_status (nms ! i))"
proof (induction idx ms nms arbitrary: err nms' rule: advanceLoop.induct)
  case (1 index nextMatches)
  then show ?case by simp
next
  case (2 index m ms nextMatches)
  show ?case
  proof (cases "result m")
    case None
    with 2 show ?thesis by simp
  next
    case (Some r)
    note r = this
    show ?thesis
    proof (cases "winner r")
      case None
      with 2 r show ?thesis by simp
    next
      case (Some w)
      show ?thesis
      proof (cases "w = [] \<or> \<not> index div 2 < length nextMatches")
        case True
        with "2.prems" "2.IH"(3) [OF r Some] r Some show ?thesis by (auto simp: Let_def split: if_splits)
      next
        case False
        let ?k = "index div 2"
        let ?upd = "nextMatches[?k :=
                          (if index mod 2 = 0
                           then (nextMatches ! ?k)\<lparr>participant1 := Some (winnerSlot w)\<rparr>
                           else (nextMatches ! ?k)\<lparr>participant2 := Some (winnerSlot w)\<rparr>)]"
        from False "2.prems" r Some have rec: "advanceLoop (index + 1) ms ?upd = (err, nms')"
          by (simp add: Let_def)
        from "2.IH"(4) [OF r Some _ refl _ refl rec] False
        have ih: "length nms' = length ?upd \<and>
     (\<forall>i < length ?upd. result (nms' ! i) = result (?upd ! i) \<and>
                        match_status (nms' ! i) = match_status (?upd ! i))"
          by simp
        moreover have "result (?upd ! i) = result (nextMatches ! i) \<and>
            match_status (?upd ! i) = match_status (nextMatches ! i)" if "i < length nextMatches" for i
          using that False by (cases "i = index div 2") (simp_all add: nth_list_update)
        ultimately show ?thesis
          by simp
      qed
    qed
  qed
qed

section \<open>Rounds and matches: proofs\<close>

lemma findIndex_less: "findIndex P xs = Some k \<Longrightarrow> k < length xs"
  by (induction xs arbitrary: k) (auto split: if_splits)

lemma advanceWinners_keeps:
  assumes "advanceWinners r b = (err, b')"
  shows "length (rounds b') = length (rounds b) \<and>
     (\<forall>j < length (rounds b).
        length (matches (rounds b' ! j)) = length (matches (rounds b ! j)) \<and>
        (\<forall>i < length (matches (rounds b ! j)).
           result (matches (rounds b' ! j) ! i) = result (matches (rounds b ! j) ! i) \<and>
           match_status (matches (rounds b' ! j) ! i) = match_status (matches (rounds b ! j) ! i)))"
proof (cases "nextRound r")
  case None
  with assms show ?thesis by (simp add: advanceWinners_def)
next
  case (Some nextId)
  show ?thesis
  proof (cases "nextId = [] \<or> findIndex (\<lambda>r. round_id r = nextId) (rounds b) = None")
    case True
    with assms Some have "b' = b" by (auto simp: advanceWinners_def split: if_splits)
    then show ?thesis by simp
  next
    case False
    then obtain k where k: "findIndex (\<lambda>r. round_id r = nextId) (rounds b) = Some k"
      and ne: "nextId \<noteq> []" by auto
    obtain e nms where al: "advanceLoop 0 (matches r) (matches (rounds b ! k)) = (e, nms)"
      by (cases "advanceLoop 0 (matches r) (matches (rounds b ! k))")
    from assms Some k ne al
    have b': "b' = b\<lparr>rounds := (rounds b)[k := (rounds b ! k)\<lparr>matches := nms\<rparr>]\<rparr>"
      by (simp add: advanceWinners_def)
    have kl: "k < length (rounds b)" using k by (rule findIndex_less)
    note keep = advanceLoop_keeps [OF al]
    show ?thesis
    proof (intro conjI allI impI)
      show "length (rounds b') = length (rounds b)" by (simp add: b')
    next
      fix j assume "j < length (rounds b)"
      then show "length (matches (rounds b' ! j)) = length (matches (rounds b ! j))"
        using keep kl by (cases "j = k") (simp_all add: b')
    next
      fix j i assume "j < length (rounds b)" "i < length (matches (rounds b ! j))"
      then show "result (matches (rounds b' ! j) ! i) = result (matches (rounds b ! j) ! i)"
        and "match_status (matches (rounds b' ! j) ! i) = match_status (matches (rounds b ! j) ! i)"
        using keep kl by (cases "j = k"; simp add: b')+
    qed
  qed
qed

lemma advanceWinners_no_link: "nextRound r = None \<Longrightarrow> advanceWinners r b = (None, b)"
  by (simp add: advanceWinners_def)

lemma runMatch_failure:
  "runMatchBody env m t = Inl e \<Longrightarrow> readMessage e = Inr msg \<Longrightarrow>
     runMatch env m t = Inr \<lparr> winner = None, loser = None, score = [], metrics = None,
                               error_message = msg \<rparr>"
  by (simp add: runMatch_def)

lemma runMatch_rejects:
  "runMatchBody env m t = Inl Nullish \<Longrightarrow>
     runMatch env m t = Inl (Error ''Cannot read properties of null (reading message)'')"
  by (simp add: runMatch_def)

lemma runMatch_resolves:
  "runMatchBody env m t \<noteq> Inl Nullish \<Longrightarrow> \<exists>r. runMatch env m t = Inr r"
  by (cases "runMatchBody env m t"; cases "projl (runMatchBody env m t)")
     (auto simp: runMatch_def)

lemma promiseAll_resolved:
  "promiseAll ps = Inr xs \<Longrightarrow> map Inr xs = ps"
proof (induction ps arbitrary: xs)
  case Nil
  then show ?case by simp
next
  case (Cons p ps)
  then show ?case by (cases p; cases "promiseAll ps") auto
qed

lemma promiseAll_resolves:
  "(\<And>p. p \<in> set ps \<Longrightarrow> \<exists>x. p = Inr x) \<Longrightarrow> \<exists>xs. promiseAll ps = Inr xs"
proof (induction ps)
  case Nil
  then show ?case by simp
next
  case (Cons p ps)
  then obtain x where "p = Inr x" by auto
  moreover from Cons obtain xs where "promiseAll ps = Inr xs" by auto
  ultimately show ?case by simp
qed

lemma promiseAll_rejected:
  "Inl e \<in> set ps \<Longrightarrow> \<exists>e'. promiseAll ps = Inl e'"
proof (induction ps)
  case Nil
  then show ?case by simp
next
  case (Cons p ps)
  then show ?case by (cases p; cases "promiseAll ps") auto
qed

lemma runMatchBody_agent_missing:
  assumes "participant1 m = Some p1" "participant2 m = Some p2"
    and "getAgent env (entrantAgentId p1) = Inr None \<or> getAgent env (entrantAgentId p2) = Inr None
         \<or> isl (getAgent env (entrantAgentId p1)) \<or> isl (getAgent env (entrantAgentId p2))"
  shows "isl (runMatchBody env m t)"
  using assms by (auto simp: runMatchBody_def isl_def split: sum.splits option.splits)

lemma runMatchBody_simulation_throws:
  assumes "participant1 m = Some p1" "participant2 m = Some p2"
    and "getAgent env (entrantAgentId p1) = Inr (Some a1)"
    and "getAgent env (entrantAgentId p2) = Inr (Some a2)"
    and "simulate env a1 a2 (tournament_scenario t) = Inl e"
  shows "isl (runMatchBody env m t)"
  using assms by (auto simp: runMatchBody_def split: sum.splits option.splits)

lemma processRound_rejected:
  "promiseAll (map (\<lambda>m. runMatch env m t) (matches (rounds b ! ri))) = Inl e \<Longrightarrow>
     processRound env t ri b = (Some e, b)"
  by (simp add: processRound_def)

lemma processRound_results:
  assumes ri: "ri < length (rounds b)" and i: "i < length (matches (rounds b ! ri))"
    and pa: "promiseAll (map (\<lambda>m. runMatch env m t) (matches (rounds b ! ri))) = Inr results"
    and pr: "processRound env t ri b = (err, b')"
  shows "length (matches (rounds b' ! ri)) = length (matches (rounds b ! ri)) \<and>
         runMatch env (matches (rounds b ! ri) ! i) t = Inr (results ! i) \<and>
         result (matches (rounds b' ! ri) ! i) = Some (results ! i) \<and>
         match_status (matches (rounds b' ! ri) ! i) = ''completed''"
proof -
  define r0 where "r0 = rounds b ! ri"
  define processed where "processed = r0\<lparr>matches :=
                     map (\<lambda>(m, r). m\<lparr>result := Some r, match_status := ''completed''\<rparr>)
                       (zip (matches r0) results)\<rparr>"
  define b1 where "b1 = b\<lparr>rounds := (rounds b)[ri := processed]\<rparr>"
  have aw: "advanceWinners processed b1 = (err, b')"
    using pr pa by (simp add: processRound_def Let_def r0_def processed_def b1_def)
  have mp: "map Inr results = map (\<lambda>m. runMatch env m t) (matches r0)"
    using promiseAll_resolved [OF pa] by (simp add: r0_def)
  then have lr: "length results = length (matches r0)"
    by (metis length_map)
  have ri': "runMatch env (matches r0 ! i) t = Inr (results ! i)"
  proof -
    have "map Inr results ! i = map (\<lambda>m. runMatch env m t) (matches r0) ! i"
      by (simp only: mp)
    then show ?thesis using i lr by (simp add: r0_def)
  qed
  have l1: "length (rounds b1) = length (rounds b)" by (simp add: b1_def)
  have r1: "rounds b1 ! ri = processed" using ri by (simp add: b1_def)
  have lm: "length (matches processed) = length (matches r0)" by (simp add: processed_def lr)
  have res: "result (matches processed ! i) = Some (results ! i) \<and>
             match_status (matches processed ! i) = ''completed''"
    using i lr by (simp add: processed_def r0_def)
  from advanceWinners_keeps [OF aw] ri i l1 r1 lm res ri' show ?thesis
    by (simp add: r0_def)
qed

text \<open>
  When no \<open>try\<close> block of the round throws \<open>null\<close> or \<open>undefined\<close>, every match of a processed
  round holds the result \<open>runMatch\<close> resolved to and the status completed; a match whose
  \<open>try\<close> block threw holds the record with winner null and the message that was read.
\<close>

lemma processRound_records_readable_failures:
  assumes ri: "ri < length (rounds b)"
    and rd: "\<And>m. m \<in> set (matches (rounds b ! ri)) \<Longrightarrow> runMatchBody env m t \<noteq> Inl Nullish"
    and pr: "processRound env t ri b = (err, b')"
    and i: "i < length (matches (rounds b ! ri))"
  shows "length (matches (rounds b' ! ri)) = length (matches (rounds b ! ri))"
    and "\<exists>r. runMatch env (matches (rounds b ! ri) ! i) t = Inr r \<and>
             result (matches (rounds b' ! ri) ! i) = Some r"
    and "match_status (matches (rounds b' ! ri) ! i) = ''completed''"
    and "runMatchBody env (matches (rounds b ! ri) ! i) t = Inl e \<Longrightarrow>
           \<exists>msg. readMessage e = Inr msg \<and>
             result (matches (rounds b' ! ri) ! i)
               = Some \<lparr> winner = None, loser = None, score = [], metrics = None,
                        error_message = msg \<rparr>"
proof -
  have "\<exists>xs. promiseAll (map (\<lambda>m. runMatch env m t) (matches (rounds b ! ri))) = Inr xs"
    by (rule promiseAll_resolves) (auto dest!: rd runMatch_resolves [of env _ t])
  then obtain results
    where pa: "promiseAll (map (\<lambda>m. runMatch env m t) (matches (rounds b ! ri))) = Inr results"
    by blast
  note res = processRound_results [OF ri i pa pr]
  from res show "length (matches (rounds b' ! ri)) = length (matches (rounds b ! ri))"
    and "\<exists>r. runMatch env (matches (rounds b ! ri) ! i) t = Inr r \<and>
             result (matches (rounds b' ! ri) ! i) = Some r"
    and "match_status (matches (rounds b' ! ri) ! i) = ''completed''"
    by simp_all
  assume e: "runMatchBody env (matches (rounds b ! ri) ! i) t = Inl e"
  with rd [of "matches (rounds b ! ri) ! i"] i have "e \<noteq> Nullish" by auto
  then obtain msg where msg: "readMessage e = Inr msg" by (cases e) auto
  from runMatch_failure [OF e msg] res
  show "\<exists>msg. readMessage e = Inr msg \<and>
             result (matches (rounds b' ! ri) ! i)
               = Some \<lparr> winner = None, loser = None, score = [], metrics = None,
                        error_message = msg \<rparr>"
    using msg by simp
qed

lemma processRound_missing_agent_recorded:
  "fst (processRound (sampleEnvWithout ''C'') (sampleTournament ''single-elimination'' 4 sampleFour) 0
          (generateSingleElimination (map Agent sampleFour))) = None \<and>
   map (\<lambda>m. map_option (\<lambda>r. (winner r, error_message r)) (result m))
     (matches (rounds (snd (processRound (sampleEnvWithout ''C'')
            (sampleTournament ''single-elimination'' 4 sampleFour) 0
            (generateSingleElimination (map Agent sampleFour)))) ! 0))
     = [Some (Some ''A'', None), Some (None, Some ''One or both agents not found'')]"
  by code_simp

section \<open>Tournament status: proofs\<close>

lemma completeTournament_log:
  "completeTournament env now t = (e, t') \<Longrightarrow>
     status t' = Completed \<and> statusLog t' = statusLog t @ [Completed] \<and>
     e = saveTournamentFails env t'"
  by (auto simp: completeTournament_def setStatus_def Let_def)

lemma roundsFrom_log:
  "roundsFrom env now ris t = (e, t') \<Longrightarrow>
     (status t' = status t \<and> statusLog t' = statusLog t) \<or>
     (status t' = Completed \<and> statusLog t' = statusLog t @ [Completed] \<and>
      e = saveTournamentFails env t')"
proof (induction ris arbitrary: t)
  case Nil
  then show ?case by simp
next
  case (Cons ri ris)
  show ?case
  proof (cases "bracket t")
    case None
    with Cons.prems show ?thesis by simp
  next
    case (Some b)
    obtain err b' where pr: "processRound env t ri b = (err, b')"
      by (cases "processRound env t ri b")
    show ?thesis
    proof (cases err)
      case (Some e0)
      with Cons.prems \<open>bracket t = Some b\<close> pr show ?thesis by auto
    next
      case None
      let ?t' = "t\<lparr>bracket := Some b'\<rparr>"
      from Cons.prems \<open>bracket t = Some b\<close> pr None
      consider (thrown) "t' = ?t'"
        | (complete) "completeTournament env now ?t' = (e, t')"
        | (continue) "roundsFrom env now ris ?t' = (e, t')"
        by (auto simp: Let_def split: if_splits sum.splits bool.splits)
      then show ?thesis
      proof cases
        case thrown
        then show ?thesis by simp
      next
        case complete
        from completeTournament_log [OF complete] show ?thesis by simp
      next
        case continue
        from Cons.IH [OF continue] show ?thesis by simp
      qed
    qed
  qed
qed

lemma processTournamentRounds_log:
  "processTournamentRounds env now t = (e, t') \<Longrightarrow>
     (status t' = status t \<and> statusLog t' = statusLog t) \<or>
     (status t' = Completed \<and> statusLog t' = statusLog t @ [Completed] \<and>
      e = saveTournamentFails env t')"
  by (auto simp: processTournamentRounds_def split: option.splits dest: roundsFrom_log)

lemma startTournament_closed:
  "mgr tid = Some t \<Longrightarrow> status t \<noteq> Registration \<Longrightarrow>
     startTournament env now mgr tid = (Inl (Error ''Tournament cannot be started''), mgr)"
  by (simp add: startTournament_def)

lemma joinTournament_closed:
  "mgr tid = Some t \<Longrightarrow> status t \<noteq> Registration \<Longrightarrow>
     joinTournament env now mgr tid a = (Inl (Error ''Tournament registration is closed''), mgr)"
  by (simp add: joinTournament_def)

lemma startTournament_generate_fails:
  "mgr tid = Some t \<Longrightarrow> status t = Registration \<Longrightarrow>
   generate (participants t) (tournament_type t) = Inl e \<Longrightarrow>
     startTournament env now mgr tid = (Inl e, mgr(tid \<mapsto> setStatus ErrorStatus t))"
  by (simp add: startTournament_def)

text \<open>The statuses written by a start from registration, when saving a completed tournament does not fail.\<close>

lemma startTournament_log:
  assumes m: "mgr tid = Some t" and reg: "status t = Registration"
    and sv: "\<forall>tc. status tc = Completed \<longrightarrow> saveTournamentFails env tc = None"
  shows "\<exists>t' ws. snd (startTournament env now mgr tid) tid = Some t' \<and>
              statusLog t' = statusLog t @ ws \<and> status t' = last (status t # ws) \<and>
              ws \<in> set [ [ErrorStatus], [Running], [Running, ErrorStatus], [Running, Completed] ] \<and>
              (hd ws = Running) = (\<not> isl (generate (participants t) (tournament_type t))) \<and>
              (status t' = ErrorStatus) = isl (fst (startTournament env now mgr tid))"
proof (cases "generate (participants t) (tournament_type t)")
  case (Inl e)
  with m reg show ?thesis
    by (simp add: startTournament_def setStatus_def)
next
  case (Inr b)
  let ?t1 = "(setStatus Running (t\<lparr>bracket := Some b\<rparr>))\<lparr>startTime := Some now\<rparr>"
  have t1: "status ?t1 = Running" "statusLog ?t1 = statusLog t @ [Running]"
    by (simp_all add: setStatus_def)
  show ?thesis
  proof (cases "saveTournamentFails env ?t1")
    case (Some e)
    with m reg Inr show ?thesis
      by (simp add: startTournament_def setStatus_def)
  next
    case None
    obtain err t2 where p: "processTournamentRounds env now ?t1 = (err, t2)"
      by (cases "processTournamentRounds env now ?t1")
    from processTournamentRounds_log [OF p] t1
    consider (same) "status t2 = Running" "statusLog t2 = statusLog t @ [Running]"
      | (finished) "status t2 = Completed" "statusLog t2 = statusLog t @ [Running, Completed]"
          "err = saveTournamentFails env t2"
      by auto
    then show ?thesis
    proof cases
      case same
      with m reg Inr None p show ?thesis
        by (cases err) (simp_all add: startTournament_def setStatus_def)
    next
      case finished
      with sv have "err = None" by simp
      with finished m reg Inr None p show ?thesis
        by (simp add: startTournament_def)
    qed
  qed
qed

lemma follows_amended:
  "ws \<in> set [ [ErrorStatus], [Running], [Running, ErrorStatus], [Running, Completed] ] \<Longrightarrow>
     follows amendedTransition Registration ws"
  by (auto simp: amendedTransition_def)

lemma startTournament_follows:
  assumes m: "mgr tid = Some t"
    and sv: "\<forall>tc. status tc = Completed \<longrightarrow> saveTournamentFails env tc = None"
  shows "\<exists>t' ws. snd (startTournament env now mgr tid) tid = Some t' \<and>
              statusLog t' = statusLog t @ ws \<and> status t' = last (status t # ws) \<and>
              follows amendedTransition (status t) ws \<and>
              (status t = Registration \<longrightarrow>
                 ws \<in> set [ [ErrorStatus], [Running], [Running, ErrorStatus], [Running, Completed] ] \<and>
                 (hd ws = Running) = (\<not> isl (generate (participants t) (tournament_type t))) \<and>
              (status t' = ErrorStatus) = isl (fst (startTournament env now mgr tid)))"
proof (cases "status t = Registration")
  case False
  with m have "snd (startTournament env now mgr tid) tid = Some t \<and>
      statusLog t = statusLog t @ [] \<and> status t = last (status t # []) \<and>
      follows amendedTransition (status t) []"
    by (simp add: startTournament_closed)
  with False show ?thesis by blast
next
  case True
  from startTournament_log [of mgr tid t env now, OF m True sv]
  obtain t' ws where "snd (startTournament env now mgr tid) tid = Some t'"
    "statusLog t' = statusLog t @ ws" "status t' = last (status t # ws)"
    "ws \<in> set [ [ErrorStatus], [Running], [Running, ErrorStatus], [Running, Completed] ]"
    "(hd ws = Running) = (\<not> isl (generate (participants t) (tournament_type t))) \<and>
              (status t' = ErrorStatus) = isl (fst (startTournament env now mgr tid))"
    by blast
  moreover from this follows_amended have "follows amendedTransition (status t) ws"
    using True by simp
  ultimately show ?thesis by blast
qed

lemma joinTournament_follows:
  assumes m: "mgr tid = Some t"
    and sv: "\<forall>tc. status tc = Completed \<longrightarrow> saveTournamentFails env tc = None"
  shows "\<exists>t' ws. snd (joinTournament env now mgr tid a) tid = Some t' \<and>
              statusLog t' = statusLog t @ ws \<and> status t' = last (status t # ws) \<and>
              follows amendedTransition (status t) ws"
proof (cases "status t = Registration")
  case False
  with m have "snd (joinTournament env now mgr tid a) tid = Some t \<and>
      statusLog t = statusLog t @ [] \<and> status t = last (status t # []) \<and>
      follows amendedTransition (status t) []"
    by (simp add: joinTournament_closed)
  then show ?thesis by blast
next
  case True
  let ?p = "\<lparr> agentId = a, joinedAt = Some now, participant_status = Some ''registered'' \<rparr>"
  let ?t1 = "t\<lparr>participants := participants t @ [?p]\<rparr>"
  let ?mgr1 = "mgr(tid \<mapsto> ?t1)"
  have m1: "?mgr1 tid = Some ?t1" by simp
  from startTournament_follows [of ?mgr1 tid ?t1 env now, OF m1 sv]
  obtain t' ws where st: "snd (startTournament env now ?mgr1 tid) tid = Some t'"
    "statusLog t' = statusLog t @ ws" "status t' = last (status t # ws)"
    "follows amendedTransition (status t) ws"
    by auto
  have keep: "statusLog t = statusLog t @ [] \<and> status t = last (status t # []) \<and>
      follows amendedTransition (status t) []" by simp
  have keep1: "statusLog ?t1 = statusLog t @ [] \<and> status ?t1 = last (status t # []) \<and>
      follows amendedTransition (status t) []" by simp
  obtain r2 mgr2 where s: "startTournament env now ?mgr1 tid = (r2, mgr2)"
    by (cases "startTournament env now ?mgr1 tid")
  with st(1) have m2: "mgr2 tid = Some t'" by simp
  have "snd (joinTournament env now mgr tid a) tid = Some t \<or>
        snd (joinTournament env now mgr tid a) tid = Some ?t1 \<or>
        snd (joinTournament env now mgr tid a) tid = Some t'"
    using m True s m2
    by (auto simp: joinTournament_def Let_def split: sum.splits bool.splits option.splits)
  then consider (unchanged) "snd (joinTournament env now mgr tid a) tid = Some t"
    | (joined) "snd (joinTournament env now mgr tid a) tid = Some ?t1"
    | (started) "snd (joinTournament env now mgr tid a) tid = Some t'"
    by blast
  then show ?thesis
  proof cases
    case unchanged
    with keep show ?thesis by blast
  next
    case joined
    with keep1 show ?thesis by blast
  next
    case started
    with st show ?thesis by blast
  qed
qed


text \<open>
  Claim C1. The claim asks for \<open>ceil(log2 N)\<close> rounds and a final round of one match. For the
  four participants \<open>A, B, C, D\<close> that is two rounds; \<open>generateSingleElimination\<close> returns
  one round only, holding both first-round matches and not marked final. The loop pushes
  byes alone to \<open>nextRoundParticipants\<close>, never a place for a winner, so it stops after
  its first pass (lemma \<open>single_elimination_builds_one_round\<close> above, for every \<open>N \<ge> 2\<close>).
\<close>

theorem four_participants_one_round:
  "length (rounds (generateSingleElimination sampleFour)) = 1 \<and>
   length (matches (last (rounds (generateSingleElimination sampleFour)))) = 2 \<and>
   \<not> isFinal (last (rounds (generateSingleElimination sampleFour)))"
  by code_simp

text \<open>
  On a bracket whose first round names a second one, \<open>advanceWinners\<close> does place the
  winners as the index mapping says: \<open>A\<close> (match 0) in the first slot and \<open>D\<close> (match 1) in
  the second slot of match 0 of the next round.
\<close>

lemma advanceWinners_on_linked_rounds:
  "slots (snd (processRound sampleEnv (sampleTournament ''single-elimination'' 4 sampleFour) 0
                 linkedFour))
   = [ [(Some ''A'', Some ''B'', Some ''A''), (Some ''C'', Some ''D'', Some ''D'')],
       [(Some ''A'', Some ''D'', None)] ]"
  by code_simp

text \<open>
  Claim C2. The claim places the winner of match \<open>i\<close> in slot \<open>i mod 2\<close> of match
  \<open>floor(i / 2)\<close> of the next round, so that \<open>A, B, C, D\<close> with \<open>A\<close> beating \<open>B\<close> and \<open>D\<close> beating
  \<open>C\<close> meet as \<open>(A, D)\<close> in a second round. Started on these four, the tournament plays the
  two first-round matches and keeps running with a bracket of that one round: there is
  no second round, and no match holds \<open>A\<close> and \<open>D\<close>. \<open>advanceWinners\<close> does nothing here,
  since no round of a generated bracket has a \<open>nextRound\<close>.
\<close>

theorem four_participants_no_second_round:
  "map_option (\<lambda>t. (status t, map_option slots (bracket t)))
     (snd (startTournament sampleEnv ''2024-03-01T00:00:00.000Z''
             [''t1'' \<mapsto> sampleTournament ''single-elimination'' 4 sampleFour] ''t1'') ''t1'')
   = Some (Running,
           Some [ [(Some ''A'', Some ''B'', Some ''A''), (Some ''C'', Some ''D'', Some ''D'')] ])"
  by code_simp

text \<open>
  Claim C6, as stated, lists three status changes: registration to running, running to
  completed, running to error. A gauntlet tournament opened for two participants goes
  from registration straight to error. Before the second join its status is registration,
  nothing has been written to it, it has no bracket and no start time. The second join
  starts it, \<open>generateGauntlet\<close> throws before the status is set to running, and the \<open>catch\<close> of
  \<open>startTournament\<close> writes error: that is the only status written during the call, bracket
  and start time are still missing, and registration to error is none of the three
  changes.
\<close>

theorem registration_to_error_counterexample:
  "map_option (\<lambda>t. (status t, statusLog t, bracket t, startTime t))
     ([''t1'' \<mapsto> sampleTournament ''gauntlet'' 2 [sampleParticipant ''A'']] ''t1'')
     = Some (Registration, [], None, None) \<and>
   map_option (\<lambda>t. (status t, statusLog t, bracket t, startTime t))
     (snd (joinTournament sampleEnv ''2024-03-01T00:00:00.000Z''
             [''t1'' \<mapsto> sampleTournament ''gauntlet'' 2 [sampleParticipant ''A'']] ''t1'' ''B'')
        ''t1'')
     = Some (ErrorStatus, [ErrorStatus], None, None) \<and>
   \<not> follows claimedTransition Registration [ErrorStatus]"
  by code_simp

text \<open>
  Claim C6, amended. Once the status of a tournament is no longer registration, every
  join call and every start call fails with an error and leaves the tournament, its
  participants included, as it was. When saving a completed tournament does not fail,
  every status written during a join or a start call is reached from the one before it by
  one of the changes registration to running, running to completed, running to error, or
  registration to error; so no call writes registration, and none moves the status
  backward. A start from registration writes exactly one of: error; running; running then
  error; running then completed. It writes running first exactly when the bracket
  generator does not throw; when the generator throws, the status goes from registration
  straight to error and nothing else of the tournament changes.
\<close>

theorem status_writes_follow_life_cycle:
  assumes "mgr tid = Some t"
  shows "(status t \<noteq> Registration \<longrightarrow>
            joinTournament env now mgr tid a
              = (Inl (Error ''Tournament registration is closed''), mgr) \<and>
            startTournament env now mgr tid
              = (Inl (Error ''Tournament cannot be started''), mgr)) \<and>
         ((\<forall>tc. status tc = Completed \<longrightarrow> saveTournamentFails env tc = None) \<longrightarrow>
            (\<exists>t' ws. snd (joinTournament env now mgr tid a) tid = Some t' \<and>
               statusLog t' = statusLog t @ ws \<and> status t' = last (status t # ws) \<and>
               follows amendedTransition (status t) ws) \<and>
            (\<exists>t' ws. snd (startTournament env now mgr tid) tid = Some t' \<and>
               statusLog t' = statusLog t @ ws \<and> status t' = last (status t # ws) \<and>
               follows amendedTransition (status t) ws \<and>
               (status t = Registration \<longrightarrow>
                  ws \<in> set [ [ErrorStatus], [Running], [Running, ErrorStatus], [Running, Completed] ] \<and>
                  (hd ws = Running) = (\<not> isl (generate (participants t) (tournament_type t))) \<and>
                  (status t' = ErrorStatus) = isl (fst (startTournament env now mgr tid))))) \<and>
         (\<forall>e. status t = Registration \<and>
              generate (participants t) (tournament_type t) = Inl e \<longrightarrow>
              startTournament env now mgr tid
                = (Inl e, mgr(tid \<mapsto> setStatus ErrorStatus t)))"
proof (intro conjI impI allI)
  assume "status t \<noteq> Registration"
  with assms show "joinTournament env now mgr tid a
              = (Inl (Error ''Tournament registration is closed''), mgr)"
    and "startTournament env now mgr tid
              = (Inl (Error ''Tournament cannot be started''), mgr)"
    by (simp_all add: joinTournament_closed startTournament_closed)
next
  assume sv: "\<forall>tc. status tc = Completed \<longrightarrow> saveTournamentFails env tc = None"
  from joinTournament_follows [of mgr tid t env now a, OF assms sv]
  show "\<exists>t' ws. snd (joinTournament env now mgr tid a) tid = Some t' \<and>
               statusLog t' = statusLog t @ ws \<and> status t' = last (status t # ws) \<and>
               follows amendedTransition (status t) ws" .
  from startTournament_follows [of mgr tid t env now, OF assms sv]
  show "\<exists>t' ws. snd (startTournament env now mgr tid) tid = Some t' \<and>
               statusLog t' = statusLog t @ ws \<and> status t' = last (status t # ws) \<and>
               follows amendedTransition (status t) ws \<and>
               (status t = Registration \<longrightarrow>
                  ws \<in> set [ [ErrorStatus], [Running], [Running, ErrorStatus], [Running, Completed] ] \<and>
                  (hd ws = Running) = (\<not> isl (generate (participants t) (tournament_type t))) \<and>
                  (status t' = ErrorStatus) = isl (fst (startTournament env now mgr tid)))" .
next
  fix e
  assume "status t = Registration \<and> generate (participants t) (tournament_type t) = Inl e"
  with assms show "startTournament env now mgr tid
                = (Inl e, mgr(tid \<mapsto> setStatus ErrorStatus t))"
    by (simp add: startTournament_generate_fails)
qed

theorem status_writes_follow_life_cycle_witness:
  "joinTournament sampleEnv ''2024-03-02T00:00:00.000Z''
     [''t1'' \<mapsto> setStatus Running (sampleTournament ''single-elimination'' 4 sampleFour)]
     ''t1'' ''E''
     = (Inl (Error ''Tournament registration is closed''),
        [''t1'' \<mapsto> setStatus Running (sampleTournament ''single-elimination'' 4 sampleFour)]) \<and>
   (\<exists>t'. snd (startTournament sampleEnv ''2024-03-02T00:00:00.000Z''
              [''t1'' \<mapsto> sampleTournament ''single-elimination'' 4 sampleFour] ''t1'') ''t1''
            = Some t' \<and>
         statusLog t' \<in> set [ [ErrorStatus], [Running], [Running, ErrorStatus], [Running, Completed] ] \<and>
         hd (statusLog t') = Running \<and> status t' = last (statusLog t')) \<and>
   startTournament sampleEnv ''2024-03-02T00:00:00.000Z''
     [''t1'' \<mapsto> sampleTournament ''gauntlet'' 2 (map sampleParticipant [''A'', ''B''])] ''t1''
     = (Inl (Error ''Gauntlet mode requires exactly one participant''),
        [''t1'' \<mapsto> setStatus ErrorStatus
                      (sampleTournament ''gauntlet'' 2 (map sampleParticipant [''A'', ''B'']))])"
proof -
  let ?now = "''2024-03-02T00:00:00.000Z''"
  let ?s = "sampleTournament ''single-elimination'' 4 sampleFour"
  let ?run = "setStatus Running ?s"
  let ?g = "sampleTournament ''gauntlet'' 2 (map sampleParticipant [''A'', ''B''])"
  have 1: "[''t1'' \<mapsto> ?run] ''t1'' = Some ?run" by simp
  have 2: "[''t1'' \<mapsto> ?g] ''t1'' = Some ?g" by simp
  have 3: "[''t1'' \<mapsto> ?s] ''t1'' = Some ?s" by simp
  have s1: "status ?run \<noteq> Registration" by (simp add: setStatus_def)
  have s2: "status ?g = Registration" by (simp add: sampleTournament_def)
  have s3: "status ?s = Registration" "statusLog ?s = []" by (simp_all add: sampleTournament_def)
  have sv: "\<forall>tc. status tc = Completed \<longrightarrow> saveTournamentFails sampleEnv tc = None"
    by (simp add: sampleEnv_def)
  have g: "generate (participants ?g) (tournament_type ?g)
             = Inl (Error ''Gauntlet mode requires exactly one participant'')"
    by code_simp
  have g3: "\<not> isl (generate (participants ?s) (tournament_type ?s))"
    by code_simp
  from status_writes_follow_life_cycle [of "[''t1'' \<mapsto> ?run]" "''t1''" ?run sampleEnv ?now "''E''",
      OF 1] s1
  have a: "joinTournament sampleEnv ?now [''t1'' \<mapsto> ?run] ''t1'' ''E''
     = (Inl (Error ''Tournament registration is closed''), [''t1'' \<mapsto> ?run])"
    by blast
  from status_writes_follow_life_cycle [of "[''t1'' \<mapsto> ?g]" "''t1''" ?g sampleEnv ?now "''E''",
      OF 2] s2 g
  have b: "startTournament sampleEnv ?now [''t1'' \<mapsto> ?g] ''t1''
     = (Inl (Error ''Gauntlet mode requires exactly one participant''),
        [''t1'' \<mapsto> setStatus ErrorStatus ?g])"
    by simp
  from status_writes_follow_life_cycle [of "[''t1'' \<mapsto> ?s]" "''t1''" ?s sampleEnv ?now "''E''",
      OF 3] sv
  obtain t' ws where c: "snd (startTournament sampleEnv ?now [''t1'' \<mapsto> ?s] ''t1'') ''t1'' = Some t'"
    "statusLog t' = statusLog ?s @ ws" "status t' = last (status ?s # ws)"
    "status ?s = Registration \<longrightarrow>
       ws \<in> set [ [ErrorStatus], [Running], [Running, ErrorStatus], [Running, Completed] ] \<and>
       (hd ws = Running) = (\<not> isl (generate (participants ?s) (tournament_type ?s))) \<and>
       (status t' = ErrorStatus) = isl (fst (startTournament sampleEnv ?now [''t1'' \<mapsto> ?s] ''t1''))"
    by blast
  from c(4) s3(1) g3
  have ws: "ws \<in> set [ [ErrorStatus], [Running], [Running, ErrorStatus], [Running, Completed] ]"
    "hd ws = Running" by simp_all
  from c(2) s3(2) have l: "statusLog t' = ws" by simp
  from ws(1) have "ws \<noteq> []" by auto
  with c(3) have "status t' = last ws" by simp
  with c(1) ws l have "\<exists>t'. snd (startTournament sampleEnv ?now [''t1'' \<mapsto> ?s] ''t1'') ''t1''
            = Some t' \<and>
         statusLog t' \<in> set [ [ErrorStatus], [Running], [Running, ErrorStatus], [Running, Completed] ] \<and>
         hd (statusLog t') = Running \<and> status t' = last (statusLog t')"
    by simp
  with a b show ?thesis by simp
qed

section \<open>Scenario execution: proofs\<close>

lemma readClock_keeps [simp]:
  "steps (snd (readClock env ex)) = steps ex"
  "completed (snd (readClock env ex)) = completed ex"
  "exec_startTime (snd (readClock env ex)) = exec_startTime ex"
  by (simp_all add: readClock_def)

lemma isTimedOut_keeps [simp]:
  "steps (snd (isTimedOut env sc ex)) = steps ex"
  "completed (snd (isTimedOut env sc ex)) = completed ex"
  "exec_startTime (snd (isTimedOut env sc ex)) = exec_startTime ex"
  by (simp_all add: isTimedOut_def readClock_def split: option.splits)

lemma setEndTime_keeps [simp]:
  "steps (setEndTime env ex) = steps ex"
  "completed (setEndTime env ex) = completed ex"
  by (simp_all add: setEndTime_def readClock_def)

lemma pushStep_keeps [simp]:
  "length (steps (pushStep env n d r found ex)) = length (steps ex) + 1"
  "completed (pushStep env n d r found ex) = completed ex"
  "exec_startTime (pushStep env n d r found ex) = exec_startTime ex"
  by (simp_all add: pushStep_def readClock_def)

lemma isTimedOut_within:
  "withinLimit env sc \<Longrightarrow> exec_startTime ex = clock env 0 \<Longrightarrow> \<not> fst (isTimedOut env sc ex)"
  by (auto simp: withinLimit_def isTimedOut_def readClock_def split: option.splits
      dest!: spec [of _ "ticks ex"])

lemma genericLoop_stop:
  "\<not> (k < maxSteps \<and> \<not> isComplete ex) \<Longrightarrow> genericLoop env sc k ctx ex = (None, ex)"
  by (subst genericLoop.simps) auto

lemma genericLoop_timeout:
  "k < maxSteps \<Longrightarrow> \<not> isComplete ex \<Longrightarrow> fst (isTimedOut env sc ex) \<Longrightarrow>
     genericLoop env sc k ctx ex = (None, snd (isTimedOut env sc ex))"
  by (subst genericLoop.simps) (simp add: case_prod_beta)

lemma genericLoop_throw:
  "k < maxSteps \<Longrightarrow> \<not> isComplete ex \<Longrightarrow> \<not> fst (isTimedOut env sc ex) \<Longrightarrow>
   makeDecision env k ctx = Inl e \<Longrightarrow>
     genericLoop env sc k ctx ex = (Some e, snd (isTimedOut env sc ex))"
  by (subst genericLoop.simps) (simp add: case_prod_beta)

lemma genericLoop_step:
  "k < maxSteps \<Longrightarrow> \<not> isComplete ex \<Longrightarrow> \<not> fst (isTimedOut env sc ex) \<Longrightarrow>
   makeDecision env k ctx = Inr d \<Longrightarrow>
     genericLoop env sc k ctx ex =
       genericLoop env sc (k + 1)
         (updateContext ctx (applyDecision env k d ctx)
            (pushStep env (k + 1) d (applyDecision env k d ctx) None (snd (isTimedOut env sc ex))))
         (pushStep env (k + 1) d (applyDecision env k d ctx) None (snd (isTimedOut env sc ex)))"
  by (subst genericLoop.simps) (simp add: case_prod_beta Let_def)

lemma genericLoop_cases:
  obtains (stop) "\<not> (k < maxSteps \<and> \<not> isComplete ex)"
    | (timeout) "k < maxSteps" "\<not> isComplete ex" "fst (isTimedOut env sc ex)"
    | (throw) e where "k < maxSteps" "\<not> isComplete ex" "\<not> fst (isTimedOut env sc ex)"
        "makeDecision env k ctx = Inl e"
    | (step) d where "k < maxSteps" "\<not> isComplete ex" "\<not> fst (isTimedOut env sc ex)"
        "makeDecision env k ctx = Inr d"
  by (cases "makeDecision env k ctx") auto

lemma genericLoop_bound:
  "length (steps ex) \<le> 5 \<Longrightarrow>
     length (steps (snd (genericLoop env sc k ctx ex))) \<le> 5 \<and>
     completed (snd (genericLoop env sc k ctx ex)) = completed ex"
proof (induction "maxSteps - k" arbitrary: k ctx ex)
  case 0
  then show ?case by (simp add: genericLoop_stop)
next
  case (Suc n)
  show ?case
  proof (cases rule: genericLoop_cases [where k = k and ex = ex and env = env and sc = sc and ctx = ctx])
    case stop
    with Suc.prems show ?thesis by (simp add: genericLoop_stop)
  next
    case timeout
    with Suc.prems show ?thesis by (simp add: genericLoop_timeout)
  next
    case throw
    with Suc.prems show ?thesis by (simp add: genericLoop_throw)
  next
    case (step d)
    let ?ex3 = "pushStep env (k + 1) d (applyDecision env k d ctx) None (snd (isTimedOut env sc ex))"
    have "length (steps ?ex3) \<le> 5"
      using step(2) by (simp add: isComplete_def)
    moreover have "n = maxSteps - (k + 1)" using Suc.hyps(2) by simp
    ultimately show ?thesis
      using Suc.hyps(1) [of "k + 1" ?ex3] step by (simp add: genericLoop_step)
  qed
qed

lemma genericLoop_full:
  assumes "\<forall>k c. \<not> isl (makeDecision env k c)" and "withinLimit env sc"
  shows "length (steps ex) = k \<Longrightarrow> k \<le> 5 \<Longrightarrow> exec_startTime ex = clock env 0 \<Longrightarrow>
     fst (genericLoop env sc k ctx ex) = None \<and>
     length (steps (snd (genericLoop env sc k ctx ex))) = 5"
proof (induction "5 - k" arbitrary: k ctx ex)
  case 0
  then have "isComplete ex" by (simp add: isComplete_def)
  with 0 show ?case by (simp add: genericLoop_stop)
next
  case (Suc n)
  then have k: "k < maxSteps" "\<not> isComplete ex" by (simp_all add: maxSteps_def isComplete_def)
  have to: "\<not> fst (isTimedOut env sc ex)"
    using assms(2) Suc.prems(3) by (rule isTimedOut_within)
  obtain d where d: "makeDecision env k ctx = Inr d"
    using assms(1) [rule_format, of k ctx] by (cases "makeDecision env k ctx") simp_all
  let ?ex3 = "pushStep env (k + 1) d (applyDecision env k d ctx) None (snd (isTimedOut env sc ex))"
  have "length (steps ?ex3) = k + 1" "exec_startTime ?ex3 = clock env 0"
    using Suc.prems by simp_all
  moreover have "n = 5 - (k + 1)" "k + 1 \<le> 5" using Suc.hyps(2) by simp_all
  ultimately show ?case
    using Suc.hyps(1) [of "k + 1" ?ex3] k d to by (simp add: genericLoop_step)
qed

lemma newExecution_fresh [simp]:
  "steps (newExecution env) = []" "\<not> completed (newExecution env)"
  "exec_startTime (newExecution env) = clock env 0"
  by (simp_all add: newExecution_def)

lemma generateResults_fields:
  "generateResults sc aid ex = Inr res \<Longrightarrow>
     res_success res = completed ex \<and> res_steps res = length (steps ex) \<and> res_error res = None"
  by (auto simp: generateResults_def split: option.splits)

lemma generateResults_throws:
  "generateResults sc aid ex = Inl e \<Longrightarrow> e \<noteq> Nullish"
  by (auto simp: generateResults_def split: option.splits)

lemma generateErrorResults_fields:
  "generateErrorResults sc aid e ex = Inr res \<Longrightarrow>
     \<not> res_success res \<and> res_steps res = length (steps ex) \<and>
     readMessage e = Inr (res_error res)"
  by (auto simp: generateErrorResults_def split: sum.splits)

lemma generateErrorResults_resolves:
  "e \<noteq> Nullish \<Longrightarrow> \<exists>res. generateErrorResults sc aid e ex = Inr res"
  by (cases e) (simp_all add: generateErrorResults_def)

lemma generateErrorResults_rejects:
  "generateErrorResults sc aid Nullish ex
     = Inl (Error ''Cannot read properties of null (reading message)'')"
  by (simp add: generateErrorResults_def)

lemma genericLoop_throws:
  "fst (genericLoop env sc k ctx ex) = Some e \<Longrightarrow> \<exists>j c. makeDecision env j c = Inl e"
proof (induction "maxSteps - k" arbitrary: k ctx ex)
  case 0
  then show ?case by (simp add: genericLoop_stop)
next
  case (Suc n)
  show ?case
  proof (cases rule: genericLoop_cases [where k = k and ex = ex and env = env and sc = sc and ctx = ctx])
    case stop
    with Suc.prems show ?thesis by (simp add: genericLoop_stop)
  next
    case timeout
    with Suc.prems show ?thesis by (simp add: genericLoop_timeout)
  next
    case (throw e')
    with Suc.prems have "e' = e" by (simp add: genericLoop_throw)
    with throw show ?thesis by blast
  next
    case (step d)
    let ?ex3 = "pushStep env (k + 1) d (applyDecision env k d ctx) None (snd (isTimedOut env sc ex))"
    have "n = maxSteps - (k + 1)" using Suc.hyps(2) by simp
    then show ?thesis
      using Suc.hyps(1) [of "k + 1" "updateContext ctx (applyDecision env k d ctx) ?ex3" ?ex3]
        step Suc.prems
      by (simp add: genericLoop_step)
  qed
qed

lemma run_generic:
  assumes "environment_type sc \<noteq> ''code_debugging''"
  shows "run env sc aid =
     (let l = genericLoop env sc 0 newContext (newExecution env) in
      case fst l of
        Some e \<Rightarrow> (generateErrorResults sc aid e (setEndTime env (snd l)), setEndTime env (snd l))
      | None \<Rightarrow>
          (case generateResults sc aid (setEndTime env (snd l)) of
             Inr res \<Rightarrow> (Inr res, setEndTime env (snd l))
           | Inl e \<Rightarrow> (generateErrorResults sc aid e (setEndTime env (setEndTime env (snd l))),
                       setEndTime env (setEndTime env (snd l)))))"
  using assms
  by (simp add: run_def runGenericScenario_def Let_def case_prod_beta
      split: option.splits sum.splits)

lemma debugLoop_stop:
  "\<not> (k < 5 \<and> jsLess found (expectedFixes sc)) \<Longrightarrow>
     debugLoop env sc k found ctx ex = (None, found, ex)"
  by (subst debugLoop.simps) auto

lemma debugLoop_timeout:
  "k < 5 \<Longrightarrow> jsLess found (expectedFixes sc) \<Longrightarrow> fst (isTimedOut env sc ex) \<Longrightarrow>
     debugLoop env sc k found ctx ex = (None, found, snd (isTimedOut env sc ex))"
  by (subst debugLoop.simps) (simp add: case_prod_beta)

lemma debugLoop_throw:
  "k < 5 \<Longrightarrow> jsLess found (expectedFixes sc) \<Longrightarrow> \<not> fst (isTimedOut env sc ex) \<Longrightarrow>
   makeDecision env k
     (ctx\<lparr>fixesFound := Some found,
          remainingFixes := map_option (\<lambda>n. n - int found) (expectedFixes sc)\<rparr>) = Inl e \<Longrightarrow>
     debugLoop env sc k found ctx ex = (Some e, found, snd (isTimedOut env sc ex))"
  by (subst debugLoop.simps) (simp add: case_prod_beta Let_def)

lemma run_debugging:
  assumes "environment_type sc = ''code_debugging''"
  shows "run env sc aid =
     (let l = debugLoop env sc 0 0 newContext (newExecution env);
          ex1 = setEndTime env ((snd (snd l))\<lparr>completed := jsGreaterEq (fst (snd l)) (expectedFixes sc)\<rparr>) in
      case fst l of
        Some e \<Rightarrow> (generateErrorResults sc aid e (setEndTime env (snd (snd l))),
                    setEndTime env (snd (snd l)))
      | None \<Rightarrow>
          (case generateResults sc aid ex1 of
             Inr res \<Rightarrow> (Inr res, ex1)
           | Inl e \<Rightarrow> (generateErrorResults sc aid e (setEndTime env ex1), setEndTime env ex1)))"
  using assms
  by (simp add: run_def runDebuggingScenario_def Let_def case_prod_beta
      split: option.splits sum.splits)

lemma maxSteps_pos: "0 < maxSteps"
  by (simp add: maxSteps_def)

lemma newExecution_not_complete: "\<not> isComplete (newExecution env)"
  by (simp add: isComplete_def)

text \<open>A decision capability that rejects with \<open>null\<close>: the \<open>catch\<close> of \<open>run\<close> throws in its turn.\<close>

lemma run_rethrows_null:
  "fst (run (decidingEnv\<lparr>makeDecision := (\<lambda>k c. Inl Nullish)\<rparr>) (debugScenario 3) ''agent_1'')
     = Inl (Error ''Cannot read properties of null (reading message)'')"
  by code_simp

text \<open>
  Claim C10. A run of a scenario whose environment type is not \<open>code_debugging\<close> records at
  most 5 steps, and every result it returns reports at most 5 steps and has \<open>success\<close>
  false, whatever the agent decides and whether or not a decision throws: the generic
  loop never sets \<open>completed\<close>. The run returns a result unless a decision throws \<open>null\<close> or
  \<open>undefined\<close>. When no decision throws and the clock stays within the time limit, the
  run returns a result with exactly 5 steps: the completion check stops the loop before
  its cap of 10.
\<close>

theorem generic_run_at_most_five_steps:
  assumes "environment_type sc \<noteq> ''code_debugging''"
  shows "length (steps (snd (run env sc aid))) \<le> 5 \<and>
         (\<forall>res. fst (run env sc aid) = Inr res \<longrightarrow> res_steps res \<le> 5 \<and> \<not> res_success res) \<and>
         ((\<forall>k c. makeDecision env k c \<noteq> Inl Nullish) \<longrightarrow>
            (\<exists>res. fst (run env sc aid) = Inr res)) \<and>
         ((\<forall>k c. \<not> isl (makeDecision env k c)) \<and> withinLimit env sc \<longrightarrow>
            (\<exists>res. fst (run env sc aid) = Inr res \<and> res_steps res = 5 \<and> \<not> res_success res))"
proof -
  define l where "l = genericLoop env sc 0 newContext (newExecution env)"
  define ex1 where "ex1 = setEndTime env (snd l)"
  have b: "length (steps ex1) \<le> 5" "\<not> completed ex1"
    using genericLoop_bound [of "newExecution env" env sc 0 newContext]
    by (simp_all add: l_def ex1_def)
  have full: "fst l = None \<and> length (steps ex1) = 5"
    if "\<forall>k c. \<not> isl (makeDecision env k c)" "withinLimit env sc"
    using genericLoop_full [OF that, of "newExecution env" 0 newContext]
    by (simp add: l_def ex1_def)
  have nothrow: "\<forall>k c. makeDecision env k c \<noteq> Inl Nullish"
    if "\<forall>k c. \<not> isl (makeDecision env k c)"
    using that by (auto simp: isl_def)
  show ?thesis
  proof (cases "fst l")
    case (Some e)
    then have r: "run env sc aid = (generateErrorResults sc aid e ex1, ex1)"
      by (simp add: run_generic [OF assms] l_def [symmetric] ex1_def)
    from Some genericLoop_throws [of env sc 0 newContext "newExecution env" e]
    have "e \<noteq> Nullish" if "\<forall>k c. makeDecision env k c \<noteq> Inl Nullish"
      using that by (auto simp: l_def)
    then have "\<exists>res. generateErrorResults sc aid e ex1 = Inr res"
      if "\<forall>k c. makeDecision env k c \<noteq> Inl Nullish"
      using that by (simp add: generateErrorResults_resolves)
    with b full Some show ?thesis
      by (auto simp: r dest!: generateErrorResults_fields)
  next
    case None
    show ?thesis
    proof (cases "generateResults sc aid ex1")
      case (Inl e)
      then have r: "run env sc aid
          = (generateErrorResults sc aid e (setEndTime env ex1), setEndTime env ex1)"
        using None by (simp add: run_generic [OF assms] l_def [symmetric] ex1_def)
      from generateErrorResults_resolves [OF generateResults_throws [OF Inl]]
      obtain res where res: "generateErrorResults sc aid e (setEndTime env ex1) = Inr res"
        by blast
      from generateErrorResults_fields [OF res] b full show ?thesis
        by (simp add: r res)
    next
      case (Inr res)
      then have r: "run env sc aid = (Inr res, ex1)"
        using None by (simp add: run_generic [OF assms] l_def [symmetric] ex1_def)
      from generateResults_fields [OF Inr] b full show ?thesis
        by (simp add: r)
    qed
  qed
qed

theorem generic_run_at_most_five_steps_witness:
  "\<exists>res. fst (run decidingEnv planningMultiStep ''agent_1'') = Inr res \<and>
         res_steps res = 5 \<and> \<not> res_success res"
proof -
  have h: "environment_type planningMultiStep \<noteq> ''code_debugging''"
    by (simp add: planningMultiStep_def)
  have a: "\<forall>k c. \<not> isl (makeDecision decidingEnv k c)"
    by (simp add: decidingEnv_def)
  have w: "withinLimit decidingEnv planningMultiStep"
    by (auto simp: withinLimit_def decidingEnv_def planningMultiStep_def min_def)
  from generic_run_at_most_five_steps [OF h, of decidingEnv "''agent_1''"] a w
  show ?thesis by blast
qed

text \<open>
  Claim C9, as stated, promises an error result for every scenario. A debugging scenario
  that expects no fix never enters its loop, so the decision capability is not asked
  at all: with an agent that always throws the run returns \<open>success\<close> true and no error.
\<close>

theorem throwing_decisions_success_counterexample:
  "fst (run throwingEnv (debugScenario 0) ''agent_1'')
     = Inr \<lparr> res_scenarioId = ''debug_basic'', res_agentId = ''agent_1'', res_success = True,
             res_error = None, res_steps = 0 \<rparr> \<and>
   makeDecision throwingEnv 0 newContext = Inl (Error ''decision failed'')"
  by code_simp

text \<open>
  Claim C9, amended. With a decision capability that always throws a value other than
  \<open>null\<close> or \<open>undefined\<close>, every run ends and returns a result, where \<open>run\<close> could also throw
  from its \<open>catch\<close> block, with no step recorded, so within every step cap. Whenever the
  loop asks for a first decision, that is when the first time-out check is negative and,
  for a debugging scenario, at least one fix is expected, the result is the error result:
  \<open>success\<close> false and, as error, the message read from what the decision capability threw.
\<close>

theorem throwing_decisions_end_in_error:
  assumes "\<forall>k c. isl (makeDecision env k c) \<and> makeDecision env k c \<noteq> Inl Nullish"
  shows "\<exists>res. fst (run env sc aid) = Inr res \<and>
           steps (snd (run env sc aid)) = [] \<and>
           res_steps res = 0 \<and>
           ((environment_type sc = ''code_debugging'' \<longrightarrow> jsLess 0 (expectedFixes sc)) \<and>
            \<not> fst (isTimedOut env sc (newExecution env)) \<longrightarrow>
              \<not> res_success res \<and>
              (\<exists>c e. makeDecision env 0 c = Inl e \<and> readMessage e = Inr (res_error res)))"
proof -
  let ?ex0 = "newExecution env"
  let ?asked = "(environment_type sc = ''code_debugging'' \<longrightarrow> jsLess 0 (expectedFixes sc)) \<and>
            \<not> fst (isTimedOut env sc ?ex0)"
  have thrown: "\<exists>e. makeDecision env 0 c = Inl e \<and> e \<noteq> Nullish" for c
    using assms [rule_format, of 0 c] by (cases "makeDecision env 0 c") auto
  text \<open>The loop is left with the error of the first decision.\<close>
  have caught: ?thesis
    if r: "run env sc aid = (generateErrorResults sc aid e ex, ex)"
      and e: "makeDecision env 0 c = Inl e" "e \<noteq> Nullish" and ex: "steps ex = []"
    for e c ex
  proof -
    from generateErrorResults_resolves [OF e(2)]
    obtain res where res: "generateErrorResults sc aid e ex = Inr res" by blast
    from generateErrorResults_fields [OF res] e(1) ex
    have "\<not> res_success res \<and> res_steps res = 0 \<and>
          (\<exists>c e. makeDecision env 0 c = Inl e \<and> readMessage e = Inr (res_error res))"
      by auto
    with r res ex show ?thesis by simp
  qed
  text \<open>The loop is left without a decision asked for, and the ordinary result is built.\<close>
  have skipped: ?thesis
    if r: "run env sc aid =
        (case generateResults sc aid ex of
           Inr res \<Rightarrow> (Inr res, ex)
         | Inl e \<Rightarrow> (generateErrorResults sc aid e (setEndTime env ex), setEndTime env ex))"
      and ex: "steps ex = []" and na: "\<not> ?asked"
    for ex
  proof (cases "generateResults sc aid ex")
    case (Inr res)
    from generateResults_fields [OF Inr] ex r Inr na show ?thesis by auto
  next
    case (Inl e)
    from generateErrorResults_resolves [OF generateResults_throws [OF Inl]]
    obtain res where res: "generateErrorResults sc aid e (setEndTime env ex) = Inr res"
      by blast
    from generateErrorResults_fields [OF res] ex r Inl res na show ?thesis by auto
  qed
  show ?thesis
  proof (cases "environment_type sc = ''code_debugging''")
    case False
    obtain e where e: "makeDecision env 0 newContext = Inl e" "e \<noteq> Nullish"
      using thrown by blast
    show ?thesis
    proof (cases "fst (isTimedOut env sc ?ex0)")
      case True
      then have l: "genericLoop env sc 0 newContext ?ex0 = (None, snd (isTimedOut env sc ?ex0))"
        by (simp add: genericLoop_timeout maxSteps_pos newExecution_not_complete)
      show ?thesis
        by (rule skipped [of "setEndTime env (snd (isTimedOut env sc ?ex0))"])
           (use True in \<open>simp_all add: run_generic [OF False] l Let_def split: sum.splits\<close>)
    next
      case nto: False
      then have l: "genericLoop env sc 0 newContext ?ex0 = (Some e, snd (isTimedOut env sc ?ex0))"
        using e by (simp add: genericLoop_throw maxSteps_pos newExecution_not_complete)
      show ?thesis
        by (rule caught [of e "setEndTime env (snd (isTimedOut env sc ?ex0))" newContext])
           (use e in \<open>simp_all add: run_generic [OF False] l Let_def split: sum.splits\<close>)
    qed
  next
    case True
    let ?ctx = "newContext\<lparr>fixesFound := Some 0,
          remainingFixes := map_option (\<lambda>n. n - int 0) (expectedFixes sc)\<rparr>"
    obtain e where e: "makeDecision env 0 ?ctx = Inl e" "e \<noteq> Nullish"
      using thrown by blast
    consider (asked) "jsLess 0 (expectedFixes sc)" "\<not> fst (isTimedOut env sc ?ex0)"
      | (timeout) "jsLess 0 (expectedFixes sc)" "fst (isTimedOut env sc ?ex0)"
      | (unasked) "\<not> jsLess 0 (expectedFixes sc)"
      by blast
    then show ?thesis
    proof cases
      case asked
      then have l: "debugLoop env sc 0 0 newContext ?ex0 = (Some e, 0, snd (isTimedOut env sc ?ex0))"
        using e by (simp add: debugLoop_throw)
      show ?thesis
        by (rule caught [of e "setEndTime env (snd (isTimedOut env sc ?ex0))" ?ctx])
           (use e in \<open>simp_all add: run_debugging [OF True] l Let_def split: sum.splits\<close>)
    next
      case timeout
      then have l: "debugLoop env sc 0 0 newContext ?ex0 = (None, 0, snd (isTimedOut env sc ?ex0))"
        by (simp add: debugLoop_timeout)
      show ?thesis
        by (rule skipped [of "setEndTime env ((snd (isTimedOut env sc ?ex0))
                   \<lparr>completed := jsGreaterEq 0 (expectedFixes sc)\<rparr>)"])
           (use timeout in \<open>simp_all add: run_debugging [OF True] l Let_def split: sum.splits\<close>)
    next
      case unasked
      then have l: "debugLoop env sc 0 0 newContext ?ex0 = (None, 0, ?ex0)"
        by (simp add: debugLoop_stop)
      show ?thesis
        by (rule skipped [of "setEndTime env (?ex0
                   \<lparr>completed := jsGreaterEq 0 (expectedFixes sc)\<rparr>)"])
           (use unasked True in \<open>simp_all add: run_debugging [OF True] l Let_def split: sum.splits\<close>)
    qed
  qed
qed

theorem throwing_decisions_witness:
  "\<exists>res. fst (run throwingEnv (debugScenario 3) ''agent_1'') = Inr res \<and>
         res_error res = Some ''decision failed'' \<and> \<not> res_success res \<and> res_steps res = 0"
proof -
  have a: "\<forall>k c. isl (makeDecision throwingEnv k c) \<and> makeDecision throwingEnv k c \<noteq> Inl Nullish"
    by (simp add: throwingEnv_def)
  have d: "environment_type (debugScenario 3) = ''code_debugging'' \<longrightarrow>
           jsLess 0 (expectedFixes (debugScenario 3))"
    by (simp add: debugScenario_def jsLess_def)
  have t: "\<not> fst (isTimedOut throwingEnv (debugScenario 3) (newExecution throwingEnv))"
    by (simp add: isTimedOut_def readClock_def newExecution_def throwingEnv_def decidingEnv_def
        debugScenario_def)
  have m: "makeDecision throwingEnv 0 c = Inl e \<Longrightarrow> readMessage e = Inr msg \<Longrightarrow>
           msg = Some ''decision failed''" for c e msg
    by (auto simp: throwingEnv_def)
  from throwing_decisions_end_in_error [OF a, of "debugScenario 3" "''agent_1''"] d t
  obtain res c e where "fst (run throwingEnv (debugScenario 3) ''agent_1'') = Inr res"
    "res_steps res = 0" "\<not> res_success res" "makeDecision throwingEnv 0 c = Inl e"
    "readMessage e = Inr (res_error res)"
    by blast
  with m [of c e "res_error res"] show ?thesis by simp
qed

end

